theory Spec2Isabelle
  imports Main
begin

section \<open>Python values, exceptions and strings\<close>

text \<open>
  The module \<open>pycard/card.py\<close> is Python 2 code (\<open>dict.iteritems\<close>, \<open>u''\<close> literals).
  Strings are byte strings, modelled as \<open>char list\<close>.  Every exception the module or the
  library functions it calls can raise is a value of \<open>error\<close>; a computation that may
  raise returns \<open>error + 'a\<close>, with \<open>Inl\<close> the exception.
\<close>

datatype error =
    IllegalMonthError int
  | ValueError
  | OverflowError
  | AttributeError string string

text \<open>The class \<open>[0-9]\<close>, which is what \<open>\d\<close> denotes for a Python 2 byte-string pattern.\<close>

definition is_digit :: "char \<Rightarrow> bool" where
  "is_digit c = (c \<in> set ''0123456789'')"

text \<open>\<open>int(c)\<close> for a string \<open>c\<close> of one character.\<close>

definition digit_value :: "char \<Rightarrow> nat" where
  "digit_value c = of_char c - 48"

definition py_int :: "char \<Rightarrow> error + nat" where
  "py_int c = (if is_digit c then Inr (digit_value c) else Inl ValueError)"

text \<open>\<open>str(n)\<close> for a non-negative integer: its decimal digits, most significant first.\<close>

definition digit_char :: "nat \<Rightarrow> char" where
  "digit_char k = ''0123456789'' ! k"

fun py_str :: "nat \<Rightarrow> string" where
  "py_str n =
     (if n < 10 then [digit_char n]
      else py_str (n div 10) @ [digit_char (n mod 10)])"

declare py_str.simps [simp del]

text \<open>The slice \<open>s[a:b]\<close> for \<open>0 \<le> a \<le> b\<close>; it never raises.\<close>

definition slice :: "nat \<Rightarrow> nat \<Rightarrow> 'a list \<Rightarrow> 'a list" where
  "slice a b s = take (b - a) (drop a s)"

section \<open>The mod-10 checksum\<close>

text \<open>
  The inner loop of \<open>Card.is_mod10_valid\<close>: \<open>for c in str(...): tot += int(c)\<close>.
\<close>

fun add_digits :: "string \<Rightarrow> nat \<Rightarrow> error + nat" where
  "add_digits [] tot = Inr tot"
| "add_digits (c # cs) tot =
     (case py_int c of Inl e \<Rightarrow> Inl e | Inr v \<Rightarrow> add_digits cs (tot + v))"

text \<open>
  The outer loop, over the indices \<open>range(len(number) - 1, -1, -1)\<close>, threading
  \<open>dub\<close> and \<open>tot\<close>.
\<close>

fun mod10_loop :: "string \<Rightarrow> nat list \<Rightarrow> nat \<Rightarrow> nat \<Rightarrow> error + nat \<times> nat" where
  "mod10_loop number [] dub tot = Inr (dub, tot)"
| "mod10_loop number (i # is) dub tot =
     (case py_int (number ! i) of
        Inl e \<Rightarrow> Inl e
      | Inr d \<Rightarrow>
          (case add_digits (py_str ((dub + 1) * d)) tot of
             Inl e \<Rightarrow> Inl e
           | Inr tot' \<Rightarrow> mod10_loop number is ((dub + 1) mod 2) tot'))"

definition mod10_valid :: "string \<Rightarrow> error + bool" where
  "mod10_valid number =
     (case mod10_loop number (rev [0..<length number]) 0 0 of
        Inl e \<Rightarrow> Inl e
      | Inr (dub, tot) \<Rightarrow> Inr (tot mod 10 = 0))"

subsection \<open>The Luhn sum as the specification words it\<close>

text \<open>
  Written from the specification, to be compared with the loop above: counting from the
  rightmost digit (index 0), every digit at an odd index is doubled and contributes the
  sum of the decimal digits of the result; a digit at an even index contributes itself.
\<close>

fun digit_sum :: "nat \<Rightarrow> nat" where
  "digit_sum n = (if n < 10 then n else digit_sum (n div 10) + n mod 10)"

declare digit_sum.simps [simp del]

definition luhn_term :: "nat \<Rightarrow> nat \<Rightarrow> nat" where
  "luhn_term i d = (if odd i then digit_sum (2 * d) else d)"

definition luhn_sum :: "nat list \<Rightarrow> nat" where
  "luhn_sum ds = (\<Sum>i<length ds. luhn_term i (rev ds ! i))"

section \<open>Calendar and datetime (the Python 2.7 standard library)\<close>

text \<open>
  The module calls \<open>calendar.monthrange\<close>, the constructor \<open>datetime.datetime\<close>,
  \<open>datetime.utcnow\<close>, subtraction of a \<open>timedelta\<close>, comparison of datetimes and
  \<open>strftime\<close>.  These are modelled from the library's own definitions: the proleptic
  Gregorian calendar with years 1 to 9999.  Python's \<open>//\<close> and \<open>%\<close> on integers are
  \<open>div\<close> and \<open>mod\<close> on \<open>int\<close>.
\<close>

definition isleap :: "int \<Rightarrow> bool" where
  "isleap year = (year mod 4 = 0 \<and> (year mod 100 \<noteq> 0 \<or> year mod 400 = 0))"

definition mdays :: "int list" where
  "mdays = [0, 31, 28, 31, 30, 31, 30, 31, 31, 30, 31, 30, 31]"

definition days_in_month :: "int \<Rightarrow> int \<Rightarrow> int" where
  "days_in_month year month = (if month = 2 \<and> isleap year then 29 else mdays ! nat month)"

definition DAYS_BEFORE_MONTH :: "int list" where
  "DAYS_BEFORE_MONTH = [0, 0, 31, 59, 90, 120, 151, 181, 212, 243, 273, 304, 334]"

definition days_before_year :: "int \<Rightarrow> int" where
  "days_before_year year =
     (let y = year - 1 in y * 365 + y div 4 - y div 100 + y div 400)"

definition days_before_month :: "int \<Rightarrow> int \<Rightarrow> int" where
  "days_before_month year month =
     DAYS_BEFORE_MONTH ! nat month + (if month > 2 \<and> isleap year then 1 else 0)"

text \<open>The ordinal of a date: 0001-01-01 is day 1.\<close>

definition ymd2ord :: "int \<Rightarrow> int \<Rightarrow> int \<Rightarrow> int" where
  "ymd2ord year month day = days_before_year year + days_before_month year month + day"

definition valid_date :: "int \<Rightarrow> int \<Rightarrow> int \<Rightarrow> bool" where
  "valid_date year month day =
     (1 \<le> year \<and> year \<le> 9999 \<and> 1 \<le> month \<and> month \<le> 12 \<and>
      1 \<le> day \<and> day \<le> days_in_month year month)"

text \<open>\<open>calendar.weekday\<close>: builds \<open>datetime.date(year, month, day)\<close>, which checks its fields.\<close>

definition calendar_weekday :: "int \<Rightarrow> int \<Rightarrow> int \<Rightarrow> error + int" where
  "calendar_weekday year month day =
     (if valid_date year month day then Inr ((ymd2ord year month day + 6) mod 7)
      else Inl ValueError)"

definition monthrange :: "int \<Rightarrow> int \<Rightarrow> error + int \<times> int" where
  "monthrange year month =
     (if \<not> (1 \<le> month \<and> month \<le> 12) then Inl (IllegalMonthError month)
      else case calendar_weekday year month 1 of
             Inl e \<Rightarrow> Inl e
           | Inr day1 \<Rightarrow>
               Inr (day1, mdays ! nat month + (if month = 2 \<and> isleap year then 1 else 0)))"

record datetime =
  dt_year :: int
  dt_month :: int
  dt_day :: int
  dt_hour :: int
  dt_minute :: int
  dt_second :: int
  dt_microsecond :: int

definition valid_time :: "int \<Rightarrow> int \<Rightarrow> int \<Rightarrow> int \<Rightarrow> bool" where
  "valid_time hour minute second microsecond =
     (0 \<le> hour \<and> hour \<le> 23 \<and> 0 \<le> minute \<and> minute \<le> 59 \<and>
      0 \<le> second \<and> second \<le> 59 \<and> 0 \<le> microsecond \<and> microsecond \<le> 999999)"

definition valid_datetime :: "datetime \<Rightarrow> bool" where
  "valid_datetime d =
     (valid_date (dt_year d) (dt_month d) (dt_day d) \<and>
      valid_time (dt_hour d) (dt_minute d) (dt_second d) (dt_microsecond d))"

text \<open>The constructor \<open>datetime.datetime(year, month, day, hour, minute, second, microsecond)\<close>.\<close>

definition datetime_new ::
  "int \<Rightarrow> int \<Rightarrow> int \<Rightarrow> int \<Rightarrow> int \<Rightarrow> int \<Rightarrow> int \<Rightarrow> error + datetime" where
  "datetime_new year month day hour minute second microsecond =
     (if valid_date year month day \<and> valid_time hour minute second microsecond
      then Inr \<lparr>dt_year = year, dt_month = month, dt_day = day, dt_hour = hour,
                dt_minute = minute, dt_second = second, dt_microsecond = microsecond\<rparr>
      else Inl ValueError)"

text \<open>
  The position of a datetime on the time line: microseconds since 0001-01-01 00:00:00.
  Comparison and \<open>timedelta\<close> arithmetic of naive datetimes are those of this line.
\<close>

definition micros_of :: "int \<Rightarrow> int \<Rightarrow> int \<Rightarrow> int \<Rightarrow> int \<Rightarrow> int \<Rightarrow> int \<Rightarrow> int" where
  "micros_of year month day hour minute second microsecond =
     ((((ymd2ord year month day - 1) * 24 + hour) * 60 + minute) * 60 + second) * 1000000
       + microsecond"

definition to_micros :: "datetime \<Rightarrow> int" where
  "to_micros d =
     micros_of (dt_year d) (dt_month d) (dt_day d)
       (dt_hour d) (dt_minute d) (dt_second d) (dt_microsecond d)"

text \<open>
  \<open>a > b\<close> on datetimes compares the fields year, month, day, hour, minute, second,
  microsecond lexicographically.
\<close>

fun lex_gt :: "int list \<Rightarrow> int list \<Rightarrow> bool" where
  "lex_gt (x # xs) (y # ys) = (x > y \<or> (x = y \<and> lex_gt xs ys))"
| "lex_gt _ _ = False"

definition dt_fields :: "datetime \<Rightarrow> int list" where
  "dt_fields d =
     [dt_year d, dt_month d, dt_day d, dt_hour d, dt_minute d, dt_second d, dt_microsecond d]"

definition datetime_gt :: "datetime \<Rightarrow> datetime \<Rightarrow> bool" where
  "datetime_gt a b = lex_gt (dt_fields a) (dt_fields b)"

text \<open>
  \<open>d - datetime.timedelta(hours=h)\<close> for \<open>0 \<le> h \<le> 24\<close>: the datetime \<open>h\<close> hours
  earlier.  When the hour of \<open>d\<close> is less than \<open>h\<close> the date moves to the previous day;
  before 0001-01-01 there is no date and the subtraction raises \<open>OverflowError\<close>.
\<close>

definition previous_day :: "int \<Rightarrow> int \<Rightarrow> int \<Rightarrow> error + int \<times> int \<times> int" where
  "previous_day year month day =
     (if day > 1 then Inr (year, month, day - 1)
      else if month > 1 then Inr (year, month - 1, days_in_month year (month - 1))
      else if year > 1 then Inr (year - 1, 12, 31)
      else Inl OverflowError)"

definition minus_hours :: "datetime \<Rightarrow> int \<Rightarrow> error + datetime" where
  "minus_hours d h =
     (if h \<le> dt_hour d then Inr (d\<lparr>dt_hour := dt_hour d - h\<rparr>)
      else case previous_day (dt_year d) (dt_month d) (dt_day d) of
             Inl e \<Rightarrow> Inl e
           | Inr (y, m, dd) \<Rightarrow>
               Inr (d\<lparr>dt_year := y, dt_month := m, dt_day := dd,
                       dt_hour := dt_hour d + 24 - h\<rparr>))"

text \<open>
  \<open>strftime\<close> for the directives the module uses: \<open>%m\<close> is the month as two digits,
  \<open>%Y\<close> the year in decimal; any other character is copied.  Python 2.7 raises
  \<open>ValueError\<close> for a year before 1900.
\<close>

fun strftime_chars :: "datetime \<Rightarrow> string \<Rightarrow> string" where
  "strftime_chars d (a # b # r) =
     (if a = CHR ''%'' \<and> b = CHR ''m''
        then (if dt_month d < 10 then ''0'' else []) @ py_str (nat (dt_month d))
               @ strftime_chars d r
      else if a = CHR ''%'' \<and> b = CHR ''Y''
        then py_str (nat (dt_year d)) @ strftime_chars d r
      else a # strftime_chars d (b # r))"
| "strftime_chars d r = r"

definition strftime :: "datetime \<Rightarrow> string \<Rightarrow> error + string" where
  "strftime d fmt = (if dt_year d < 1900 then Inl ValueError else Inr (strftime_chars d fmt))"

section \<open>Regular expressions (the subset of \<open>re\<close> the module uses)\<close>

text \<open>
  A pattern is a term of \<open>re\<close>.  \<open>Bol\<close> is \<open>^\<close>, \<open>Eol\<close> is \<open>$\<close> (without
  \<open>re.MULTILINE\<close>: the end of the string, or just before a newline that ends it),
  \<open>Digit\<close> is \<open>\d\<close>, \<open>Range a b\<close> is \<open>[a-b]\<close>, \<open>OneOf cs\<close> is a class listing
  its characters, \<open>Opt r\<close> is \<open>(r)?\<close>.  Groups only capture and are not represented.
\<close>

datatype re =
    Eps
  | Bol
  | Eol
  | Lit char
  | Digit
  | Range char char
  | OneOf string
  | Seq re re
  | Alt re re
  | Opt re

text \<open>\<open>r{n}\<close>, a sequence of patterns, and a literal string.\<close>

fun times :: "nat \<Rightarrow> re \<Rightarrow> re" where
  "times 0 r = Eps"
| "times (Suc n) r = Seq r (times n r)"

fun seqs :: "re list \<Rightarrow> re" where
  "seqs [] = Eps"
| "seqs (r # rs) = Seq r (seqs rs)"

definition lits :: "string \<Rightarrow> re" where
  "lits cs = seqs (map Lit cs)"

text \<open>
  The backtracking matcher: \<open>re_ends s r i\<close> lists, in the order the engine tries them,
  the positions at which a match of \<open>r\<close> that starts at position \<open>i\<close> of \<open>s\<close> can end.
\<close>

fun re_ends :: "string \<Rightarrow> re \<Rightarrow> nat \<Rightarrow> nat list" where
  "re_ends s Eps i = [i]"
| "re_ends s Bol i = (if i = 0 then [i] else [])"
| "re_ends s Eol i =
     (if i = length s \<or> (Suc i = length s \<and> s ! i = CHR 0x0A) then [i] else [])"
| "re_ends s (Lit c) i = (if i < length s \<and> s ! i = c then [Suc i] else [])"
| "re_ends s Digit i = (if i < length s \<and> is_digit (s ! i) then [Suc i] else [])"
| "re_ends s (Range a b) i =
     (if i < length s \<and> (of_char a :: nat) \<le> of_char (s ! i) \<and>
         (of_char (s ! i) :: nat) \<le> of_char b
      then [Suc i] else [])"
| "re_ends s (OneOf cs) i = (if i < length s \<and> s ! i \<in> set cs then [Suc i] else [])"
| "re_ends s (Seq a b) i = concat (map (re_ends s b) (re_ends s a i))"
| "re_ends s (Alt a b) i = re_ends s a i @ re_ends s b i"
| "re_ends s (Opt a) i = re_ends s a i @ [i]"

text \<open>\<open>regexp.match(s)\<close> is a match object (true) when some match starts at position 0.\<close>

definition re_match :: "re \<Rightarrow> string \<Rightarrow> bool" where
  "re_match r s = (re_ends s r 0 \<noteq> [])"

section \<open>The classes \<open>ExpDate\<close> and \<open>Card\<close>\<close>

text \<open>
  What the module reads from outside: the clock (\<open>datetime.datetime.utcnow()\<close>) and
  the order in which \<open>BRANDS.iteritems()\<close> yields the dictionary's items, which
  Python 2 leaves to the hash table.
\<close>

record env =
  utcnow :: datetime
  iteritems :: "(string \<times> re) list"

record ExpDate =
  expired_after :: datetime

record Card =
  number :: string
  exp_date :: ExpDate
  cvv2 :: string

datatype pyval =
    VStr string
  | VBool bool
  | VDatetime datetime
  | VExpDate ExpDate
  | VObject string

subsection \<open>ExpDate\<close>

definition ExpDate_init :: "int \<Rightarrow> int \<Rightarrow> error + ExpDate" where
  "ExpDate_init month year =
     (case monthrange year month of
        Inl e \<Rightarrow> Inl e
      | Inr (weekday, day_count) \<Rightarrow>
          (case datetime_new year month day_count 23 59 59 999999 of
             Inl e \<Rightarrow> Inl e
           | Inr d \<Rightarrow> Inr \<lparr>expired_after = d\<rparr>))"

text \<open>
  \<open>self.name\<close> on an \<open>ExpDate\<close> for a name that is not one of its properties
  (\<open>is_expired\<close>, \<open>mmyyyy\<close>, \<open>mm\<close>, \<open>yyyy\<close>): the instance attribute set by
  \<open>__init__\<close>, then the methods of the class; any other name raises \<open>AttributeError\<close>.
\<close>

definition ExpDate_attr :: "ExpDate \<Rightarrow> string \<Rightarrow> error + pyval" where
  "ExpDate_attr self name =
     (if name = ''expired_after'' then Inr (VDatetime (expired_after self))
      else if name \<in> set [''__init__'', ''__repr__''] then Inr (VObject name)
      else Inl (AttributeError ''ExpDate'' name))"

definition ExpDate_is_expired :: "env \<Rightarrow> ExpDate \<Rightarrow> error + bool" where
  "ExpDate_is_expired env self =
     (case minus_hours (utcnow env) 11 of
        Inl e \<Rightarrow> Inl e
      | Inr samoa_now \<Rightarrow> Inr (datetime_gt samoa_now (expired_after self)))"

text \<open>\<open>v.strftime(fmt)\<close> on a value found by attribute lookup.\<close>

definition call_strftime :: "pyval \<Rightarrow> string \<Rightarrow> error + string" where
  "call_strftime v fmt =
     (case v of
        VDatetime d \<Rightarrow> strftime d fmt
      | VStr _ \<Rightarrow> Inl (AttributeError ''str'' ''strftime'')
      | VBool _ \<Rightarrow> Inl (AttributeError ''bool'' ''strftime'')
      | VExpDate _ \<Rightarrow> Inl (AttributeError ''ExpDate'' ''strftime'')
      | VObject _ \<Rightarrow> Inl (AttributeError ''object'' ''strftime''))"

definition mmyyyy :: "ExpDate \<Rightarrow> error + string" where
  "mmyyyy self =
     (case ExpDate_attr self ''exp_date'' of
        Inl e \<Rightarrow> Inl e
      | Inr v \<Rightarrow> call_strftime v ''%m/%Y'')"

definition mm :: "ExpDate \<Rightarrow> error + string" where
  "mm self =
     (case ExpDate_attr self ''exp_date'' of
        Inl e \<Rightarrow> Inl e
      | Inr v \<Rightarrow> call_strftime v ''%m'')"

definition yyyy :: "ExpDate \<Rightarrow> error + string" where
  "yyyy self =
     (case ExpDate_attr self ''exp_date'' of
        Inl e \<Rightarrow> Inl e
      | Inr v \<Rightarrow> call_strftime v ''%Y'')"

subsection \<open>Card\<close>

definition BRAND_VISA :: string where "BRAND_VISA = ''visa''"
definition BRAND_MASTERCARD :: string where "BRAND_MASTERCARD = ''mastercard''"
definition BRAND_AMEX :: string where "BRAND_AMEX = ''amex''"
definition BRAND_DISCOVER :: string where "BRAND_DISCOVER = ''discover''"
definition BRAND_UNKNOWN :: string where "BRAND_UNKNOWN = ''unknown''"

definition visa_re :: re where
  "visa_re = seqs [Bol, Lit CHR ''4'', times 12 Digit, Opt (times 3 Digit), Eol]"

definition mastercard_re :: re where
  "mastercard_re =
     seqs [Bol,
           Alt (seqs [Lit CHR ''5'', Range CHR ''1'' CHR ''5'', times 4 Digit]) (lits ''677189''),
           times 10 Digit, Eol]"

definition amex_re :: re where
  "amex_re = seqs [Bol, Lit CHR ''3'', OneOf ''47'', times 13 Digit, Eol]"

definition discover_re :: re where
  "discover_re =
     seqs [Bol,
           Alt (lits ''6011'') (seqs [Lit CHR ''6'', Lit CHR ''5'', times 2 Digit]),
           times 12 Digit, Eol]"

text \<open>The dictionary \<open>BRANDS\<close>, its items in the order of the source text.\<close>

definition BRANDS :: "(string \<times> re) list" where
  "BRANDS =
     [(BRAND_VISA, visa_re),
      (BRAND_MASTERCARD, mastercard_re),
      (BRAND_AMEX, amex_re),
      (BRAND_DISCOVER, discover_re)]"

definition TESTS :: "string list" where
  "TESTS =
     [''4444333322221111'',
      ''378282246310005'',
      ''371449635398431'',
      ''378734493671000'',
      ''30569309025904'',
      ''38520000023237'',
      ''6011111111111117'',
      ''6011000990139424'',
      ''555555555554444'',
      ''5105105105105100'',
      ''4111111111111111'',
      ''4012888888881881'',
      ''4222222222222'']"

text \<open>
  \<open>Card.__init__\<close>: \<open>non_digit_regexp.sub('', number)\<close> deletes every character that
  is not a digit; then the expiration date is built, and its exception, if any, leaves
  the constructor.
\<close>

definition Card_init :: "string \<Rightarrow> int \<Rightarrow> int \<Rightarrow> string \<Rightarrow> error + Card" where
  "Card_init number_arg month year cvv2_arg =
     (let digits = filter is_digit number_arg in
      case ExpDate_init month year of
        Inl e \<Rightarrow> Inl e
      | Inr d \<Rightarrow> Inr \<lparr>number = digits, exp_date = d, cvv2 = cvv2_arg\<rparr>)"

text \<open>
  \<open>self.name\<close> on a \<open>Card\<close> for a name that is not one of its properties (\<open>mask\<close>,
  \<open>brand\<close>, \<open>is_test\<close>, \<open>is_expired\<close>, \<open>is_valid\<close>, \<open>is_mod10_valid\<close>): the
  instance attributes set by \<open>__init__\<close>, then the other names bound in the class
  body; any other name raises \<open>AttributeError\<close>.
\<close>

definition Card_attr :: "Card \<Rightarrow> string \<Rightarrow> error + pyval" where
  "Card_attr self name =
     (if name = ''number'' then Inr (VStr (number self))
      else if name = ''exp_date'' then Inr (VExpDate (exp_date self))
      else if name = ''cvv2'' then Inr (VStr (cvv2 self))
      else if name = ''BRAND_VISA'' then Inr (VStr BRAND_VISA)
      else if name = ''BRAND_MASTERCARD'' then Inr (VStr BRAND_MASTERCARD)
      else if name = ''BRAND_AMEX'' then Inr (VStr BRAND_AMEX)
      else if name = ''BRAND_DISCOVER'' then Inr (VStr BRAND_DISCOVER)
      else if name = ''BRAND_UNKNOWN'' then Inr (VStr BRAND_UNKNOWN)
      else if name \<in> set [''non_digit_regexp'', ''BRANDS'', ''TESTS'', ''__init__'', ''__repr__'']
        then Inr (VObject name)
      else Inl (AttributeError ''Card'' name))"

text \<open>
  \<open>Card.brand\<close>: the loop over \<open>self.BRANDS.iteritems()\<close> returns the first brand
  whose pattern matches, and the unknown brand after the loop.
\<close>

fun brand_loop :: "(string \<times> re) list \<Rightarrow> string \<Rightarrow> string" where
  "brand_loop [] num = BRAND_UNKNOWN"
| "brand_loop ((brand, regexp) # rest) num =
     (if re_match regexp num then brand else brand_loop rest num)"

definition brand :: "env \<Rightarrow> Card \<Rightarrow> string" where
  "brand env self = brand_loop (iteritems env) (number self)"

definition is_test :: "Card \<Rightarrow> bool" where
  "is_test self = (number self \<in> set TESTS)"

definition Card_is_expired :: "env \<Rightarrow> Card \<Rightarrow> error + bool" where
  "Card_is_expired env self = ExpDate_is_expired env (exp_date self)"

definition is_mod10_valid :: "Card \<Rightarrow> error + bool" where
  "is_mod10_valid self = mod10_valid (number self)"

text \<open>
  \<open>Card.is_valid\<close>: \<open>not self.is_expired and self.is_mod10\<close>.  The operator
  \<open>and\<close> returns its left operand when that is false and otherwise evaluates and
  returns its right operand.
\<close>

definition is_valid :: "env \<Rightarrow> Card \<Rightarrow> error + pyval" where
  "is_valid env self =
     (case Card_is_expired env self of
        Inl e \<Rightarrow> Inl e
      | Inr expired \<Rightarrow>
          if \<not> expired then Card_attr self ''is_mod10'' else Inr (VBool False))"

text \<open>\<open>Card.mask\<close>.\<close>

definition mask :: "Card \<Rightarrow> error + string" where
  "mask self =
     (case Card_attr self ''card_type'' of
        Inl e \<Rightarrow> Inl e
      | Inr card_type \<Rightarrow>
          if card_type = VStr BRAND_AMEX
          then Inr (''XXXX-XXXXXX-X'' @ slice 11 15 (number self))
          else Inr (''XXXX-XXXX-XXXX-'' @ slice 12 16 (number self)))"

subsection \<open>Example objects\<close>

text \<open>
  The card \<open>Card('4111-1111-1111-1111', 12, 2030, '123')\<close>, the card
  \<open>Card('378282246310005', 12, 2030, '1234')\<close>, and a clock that reads
  2026-11-06 12:00:00 UTC with the dictionary iterated in the order of the source text.
\<close>

definition visa_card :: Card where
  "visa_card =
     \<lparr>number = ''4111111111111111'',
      exp_date = \<lparr>expired_after =
        \<lparr>dt_year = 2030, dt_month = 12, dt_day = 31, dt_hour = 23,
         dt_minute = 59, dt_second = 59, dt_microsecond = 999999\<rparr>\<rparr>,
      cvv2 = ''123''\<rparr>"

definition amex_card :: Card where
  "amex_card =
     \<lparr>number = ''378282246310005'',
      exp_date = \<lparr>expired_after =
        \<lparr>dt_year = 2030, dt_month = 12, dt_day = 31, dt_hour = 23,
         dt_minute = 59, dt_second = 59, dt_microsecond = 999999\<rparr>\<rparr>,
      cvv2 = ''1234''\<rparr>"

definition clock_2026 :: env where
  "clock_2026 =
     \<lparr>utcnow = \<lparr>dt_year = 2026, dt_month = 11, dt_day = 6, dt_hour = 12,
         dt_minute = 0, dt_second = 0, dt_microsecond = 0\<rparr>,
      iteritems = BRANDS\<rparr>"

section \<open>Construction\<close>

lemma ExpDate_init_2030: "ExpDate_init 12 2030 = Inr (exp_date visa_card)"
  by (simp add: ExpDate_init_def monthrange_def calendar_weekday_def valid_date_def
      days_in_month_def mdays_def isleap_def datetime_new_def valid_time_def visa_card_def)

lemma Card_init_visa: "Card_init ''4111-1111-1111-1111'' 12 2030 ''123'' = Inr visa_card"
  by (simp add: Card_init_def ExpDate_init_2030 is_digit_def) (simp add: visa_card_def)

lemma Card_init_amex: "Card_init ''378282246310005'' 12 2030 ''1234'' = Inr amex_card"
  by (simp add: Card_init_def ExpDate_init_2030 is_digit_def)
    (simp add: visa_card_def amex_card_def)

text \<open>
  Claim C9.  A month outside 1 to 12 makes \<open>calendar.monthrange\<close> raise
  \<open>IllegalMonthError\<close> (the module's invalid-date error) inside the \<open>ExpDate\<close>
  constructor; the \<open>Card\<close> constructor lets it through, so neither produces an object.
\<close>

theorem invalid_month_rejected:
  "month < 1 \<or> 12 < month \<Longrightarrow>
     ExpDate_init month year = Inl (IllegalMonthError month) \<and>
     Card_init number_arg month year cvv2_arg = Inl (IllegalMonthError month)"
  by (auto simp add: ExpDate_init_def Card_init_def monthrange_def)

theorem invalid_month_rejected_witness:
  "ExpDate_init 13 2030 = Inl (IllegalMonthError 13) \<and>
   Card_init ''4111111111111111'' 13 2030 ''123'' = Inl (IllegalMonthError 13) \<and>
   ExpDate_init 0 2030 = Inl (IllegalMonthError 0) \<and>
   Card_init ''4111111111111111'' 0 2030 ''123'' = Inl (IllegalMonthError 0)"
  using invalid_month_rejected [of 13 2030 "''4111111111111111''" "''123''"]
    invalid_month_rejected [of 0 2030 "''4111111111111111''" "''123''"]
  by simp

section \<open>Attribute lookups that fail\<close>

lemma visa_card_not_expired: "Card_is_expired clock_2026 visa_card = Inr False"
  by (simp add: Card_is_expired_def ExpDate_is_expired_def clock_2026_def visa_card_def
      minus_hours_def datetime_gt_def dt_fields_def)

lemma visa_card_mod10: "is_mod10_valid visa_card = Inr True"
  unfolding is_mod10_valid_def visa_card_def by code_simp

text \<open>
  What \<open>is_valid\<close> does on every card: an expired card gives \<open>False\<close>; for any
  other card the right operand of \<open>and\<close> is evaluated and the lookup of
  \<open>is_mod10\<close> raises.
\<close>

lemma is_valid_cases:
  "Card_is_expired env self = Inr expired \<Longrightarrow>
     is_valid env self =
       (if expired then Inr (VBool False) else Inl (AttributeError ''Card'' ''is_mod10''))"
  by (simp add: is_valid_def Card_attr_def)

text \<open>
  Claim C1.  \<open>Card.is_valid\<close> reads \<open>self.is_mod10\<close>, a name the class does not
  bind (the property is \<open>is_mod10_valid\<close>).  For the card
  \<open>Card('4111-1111-1111-1111', 12, 2030, '123')\<close> on 2026-11-06, which is not expired
  and passes the checksum, \<open>is_valid\<close> raises \<open>AttributeError\<close> instead of
  returning \<open>True\<close>.
\<close>

theorem is_valid_unexpired_raises:
  "Card_init ''4111-1111-1111-1111'' 12 2030 ''123'' = Inr visa_card \<and>
   Card_is_expired clock_2026 visa_card = Inr False \<and>
   is_mod10_valid visa_card = Inr True \<and>
   is_valid clock_2026 visa_card = Inl (AttributeError ''Card'' ''is_mod10'')"
proof -
  have "is_valid clock_2026 visa_card = Inl (AttributeError ''Card'' ''is_mod10'')"
    by (simp add: is_valid_def visa_card_not_expired Card_attr_def)
  then show ?thesis
    using Card_init_visa visa_card_not_expired visa_card_mod10 by simp
qed

text \<open>
  Claim C2.  \<open>Card.mask\<close> reads \<open>self.card_type\<close>, and \<open>ExpDate.mmyyyy\<close>,
  \<open>ExpDate.mm\<close> and \<open>ExpDate.yyyy\<close> read \<open>self.exp_date\<close>; neither name is
  bound for its class, so each of the four raises \<open>AttributeError\<close> on every object.
\<close>

theorem accessors_raise:
  "mask self = Inl (AttributeError ''Card'' ''card_type'') \<and>
   mmyyyy d = Inl (AttributeError ''ExpDate'' ''exp_date'') \<and>
   mm d = Inl (AttributeError ''ExpDate'' ''exp_date'') \<and>
   yyyy d = Inl (AttributeError ''ExpDate'' ''exp_date'')"
  by (simp add: mask_def Card_attr_def mmyyyy_def mm_def yyyy_def ExpDate_attr_def)

text \<open>
  Claim C6.  The two masks the specification gives as examples are not produced:
  \<open>mask\<close> raises \<open>AttributeError\<close> for the American Express card and for the Visa
  card, before either format string is reached.
\<close>

theorem mask_examples_raise:
  "Card_init ''378282246310005'' 12 2030 ''1234'' = Inr amex_card \<and>
   mask amex_card = Inl (AttributeError ''Card'' ''card_type'') \<and>
   Card_init ''4111-1111-1111-1111'' 12 2030 ''123'' = Inr visa_card \<and>
   mask visa_card = Inl (AttributeError ''Card'' ''card_type'')"
  using Card_init_amex Card_init_visa by (simp add: mask_def Card_attr_def)

section \<open>The checksum is the Luhn sum\<close>

subsection \<open>Digits and decimal strings\<close>

lemma digit_value_less: "is_digit c \<Longrightarrow> digit_value c < 10"
  by (auto simp add: is_digit_def digit_value_def)

lemma less_10_cases:
  fixes k :: nat
  assumes "k < 10"
  shows "k = 0 \<or> k = 1 \<or> k = 2 \<or> k = 3 \<or> k = 4 \<or> k = 5 \<or> k = 6 \<or> k = 7 \<or> k = 8 \<or> k = 9"
  using assms by arith

lemma is_digit_digit_char: "k < 10 \<Longrightarrow> is_digit (digit_char k)"
  by (drule less_10_cases) (auto simp add: is_digit_def digit_char_def)

lemma digit_value_digit_char: "k < 10 \<Longrightarrow> digit_value (digit_char k) = k"
  by (drule less_10_cases) (auto simp add: digit_value_def digit_char_def)

lemma py_int_digit_char: "k < 10 \<Longrightarrow> py_int (digit_char k) = Inr k"
  by (simp add: py_int_def is_digit_digit_char digit_value_digit_char)

lemma add_digits_append:
  "add_digits (xs @ ys) tot =
     (case add_digits xs tot of Inl e \<Rightarrow> Inl e | Inr t \<Rightarrow> add_digits ys t)"
  by (induction xs arbitrary: tot) (auto split: sum.splits)

lemma add_digits_py_str: "add_digits (py_str n) tot = Inr (tot + digit_sum n)"
proof (induction n arbitrary: tot rule: py_str.induct)
  case (1 n)
  show ?case
  proof (cases "n < 10")
    case True
    then show ?thesis
      by (simp add: py_str.simps [of n] digit_sum.simps [of n] py_int_digit_char)
  next
    case False
    have m: "n mod 10 < 10" by simp
    from False 1 [OF False] show ?thesis
      by (simp add: py_str.simps [of n] digit_sum.simps [of n] add_digits_append
          py_int_digit_char [OF m])
  qed
qed


lemma luhn_term_step:
  "dub < 2 \<Longrightarrow> d < 10 \<Longrightarrow> digit_sum ((dub + 1) * d) = luhn_term dub d"
proof -
  assume a: "dub < 2" and b: "d < 10"
  from a have "dub = 0 \<or> dub = 1" by arith
  then show ?thesis
  proof
    assume "dub = 0"
    with b show ?thesis by (simp add: luhn_term_def digit_sum.simps [of d])
  next
    assume "dub = 1"
    then show ?thesis by (simp add: luhn_term_def mult_2)
  qed
qed

lemma luhn_term_parity: "luhn_term ((dub + 1) mod 2 + k) d = luhn_term (Suc (dub + k)) d"
proof -
  have "odd ((dub + 1) mod 2 + k) = odd (Suc (dub + k))" by presburger
  then show ?thesis by (simp only: luhn_term_def)
qed

lemma mod10_loop_sum:
  "\<forall>i \<in> set ixs. i < length num \<and> is_digit (num ! i) \<Longrightarrow> dub < 2 \<Longrightarrow>
   mod10_loop num ixs dub tot =
     Inr ((dub + length ixs) mod 2,
          tot + (\<Sum>k<length ixs. luhn_term (dub + k) (digit_value (num ! (ixs ! k)))))"
proof (induction ixs arbitrary: dub tot)
  case Nil
  then show ?case by simp
next
  case (Cons i ixs)
  have d: "is_digit (num ! i)" using Cons.prems by simp
  have r: "\<forall>i \<in> set ixs. i < length num \<and> is_digit (num ! i)" using Cons.prems by simp
  have p: "(dub + 1) mod 2 < 2" by simp
  have q: "((dub + 1) mod 2 + length ixs) mod 2 = (dub + length (i # ixs)) mod 2"
    by simp presburger
  have step: "mod10_loop num (i # ixs) dub tot =
      mod10_loop num ixs ((dub + 1) mod 2) (tot + luhn_term dub (digit_value (num ! i)))"
  proof -
    have pi: "py_int (num ! i) = Inr (digit_value (num ! i))"
      by (simp add: py_int_def d)
    have ad: "add_digits (py_str ((dub + 1) * digit_value (num ! i))) tot =
        Inr (tot + luhn_term dub (digit_value (num ! i)))"
      by (simp only: add_digits_py_str luhn_term_step [OF Cons.prems(2) digit_value_less [OF d]])
    show ?thesis
      by (simp only: mod10_loop.simps pi ad sum.case)
  qed
  have s: "(\<Sum>k<length (i # ixs). luhn_term (dub + k) (digit_value (num ! ((i # ixs) ! k)))) =
      luhn_term dub (digit_value (num ! i)) +
      (\<Sum>k<length ixs. luhn_term (Suc (dub + k)) (digit_value (num ! (ixs ! k))))"
    by (simp add: sum.lessThan_Suc_shift del: sum.lessThan_Suc)
  show ?case
    unfolding step Cons.IH [OF r p] q s luhn_term_parity by (simp add: add.assoc)
qed


lemma mod10_valid_luhn:
  assumes "\<forall>c \<in> set num. is_digit c"
  shows "mod10_valid num = Inr (luhn_sum (map digit_value num) mod 10 = 0)"
proof -
  have a: "\<forall>i \<in> set (rev [0..<length num]). i < length num \<and> is_digit (num ! i)"
    using assms by simp
  have s: "(\<Sum>k<length num. luhn_term k (digit_value (num ! (rev [0..<length num] ! k)))) =
           luhn_sum (map digit_value num)"
    unfolding luhn_sum_def
    by (rule sum.cong) (simp_all add: rev_nth rev_map [symmetric])
  show ?thesis
    using mod10_loop_sum [OF a, of 0 0] s by (simp add: mod10_valid_def)
qed


lemma digit_sum_small: "n < 10 \<Longrightarrow> digit_sum n = n"
  by (simp add: digit_sum.simps [of n])

lemma digit_sum_double: "d < 10 \<Longrightarrow> digit_sum (2 * d) = (if d < 5 then 2 * d else 2 * d - 9)"
proof -
  assume a: "d < 10"
  show ?thesis
  proof (cases "d < 5")
    case True
    then show ?thesis by (simp add: digit_sum_small)
  next
    case False
    with a have b: "2 * d div 10 = 1" and c: "2 * d mod 10 = 2 * d - 10" by arith+
    from False show ?thesis
      by (simp add: digit_sum.simps [of "2 * d"] b c digit_sum_small)
  qed
qed

lemma luhn_term_less: "d < 10 \<Longrightarrow> luhn_term j d < 10"
  by (auto simp add: luhn_term_def digit_sum_double)

lemma luhn_term_inj:
  "d < 10 \<Longrightarrow> d' < 10 \<Longrightarrow> luhn_term j d = luhn_term j d' \<Longrightarrow> d = d'"
  by (auto simp add: luhn_term_def digit_sum_double split: if_splits) arith+

lemma luhn_sum_update:
  assumes "i < length ds"
  shows "luhn_sum (ds[i := x]) + luhn_term (length ds - Suc i) (ds ! i) =
         luhn_sum ds + luhn_term (length ds - Suc i) x"
proof -
  define j where "j = length ds - Suc i"
  define A where "A = {..<length ds} - {j}"
  have jl: "j < length ds" using assms by (simp add: j_def)
  have jin: "j \<in> {..<length ds}" using jl by simp
  have r: "rev (ds[i := x]) = (rev ds)[j := x]"
    using assms by (simp add: rev_update j_def)
  have rj: "rev ds ! j = ds ! i"
    using assms by (simp add: rev_nth j_def)
  have s1: "luhn_sum ds = luhn_term j (ds ! i) + (\<Sum>k\<in>A. luhn_term k (rev ds ! k))"
    unfolding luhn_sum_def A_def using sum.remove [OF _ jin, of "\<lambda>k. luhn_term k (rev ds ! k)"]
    by (simp add: rj)
  have s2: "luhn_sum (ds[i := x]) =
      luhn_term j x + (\<Sum>k\<in>A. luhn_term k ((rev ds)[j := x] ! k))"
    unfolding luhn_sum_def A_def r
    using sum.remove [OF _ jin, of "\<lambda>k. luhn_term k ((rev ds)[j := x] ! k)"] jl
    by simp
  have s3: "(\<Sum>k\<in>A. luhn_term k ((rev ds)[j := x] ! k)) = (\<Sum>k\<in>A. luhn_term k (rev ds ! k))"
    by (rule sum.cong) (auto simp add: A_def)
  show ?thesis
    unfolding j_def [symmetric] s1 s2 s3 by simp
qed

lemma luhn_sum_detects:
  assumes "i < length ds" "ds ! i < 10" "x < 10" "x \<noteq> ds ! i" "luhn_sum ds mod 10 = 0"
  shows "luhn_sum (ds[i := x]) mod 10 \<noteq> 0"
proof
  assume z: "luhn_sum (ds[i := x]) mod 10 = 0"
  define j where "j = length ds - Suc i"
  have e: "luhn_sum (ds[i := x]) + luhn_term j (ds ! i) = luhn_sum ds + luhn_term j x"
    unfolding j_def by (rule luhn_sum_update [OF assms(1)])
  have a: "luhn_term j (ds ! i) < 10" and b: "luhn_term j x < 10"
    using assms by (simp_all add: luhn_term_less)
  have "luhn_term j (ds ! i) = luhn_term j x"
    using e a b z assms(5) by presburger
  then have "ds ! i = x" using assms by (metis luhn_term_inj)
  with assms(4) show False by simp
qed

lemma digit_value_inj: "is_digit c \<Longrightarrow> is_digit c' \<Longrightarrow> digit_value c = digit_value c' \<Longrightarrow> c = c'"
  by (auto simp add: is_digit_def digit_value_def)

text \<open>
  Claim C4.  For a non-empty number of digits, \<open>is_mod10_valid\<close> returns whether the
  Luhn sum of the specification (every second digit from the right doubled and replaced
  by the sum of its decimal digits) is divisible by 10.  Hence a Luhn-valid number passes
  and one that is not fails; and replacing any one digit of a valid number by a different
  digit always gives a number that fails.
\<close>

theorem mod10_is_luhn:
  assumes "number self \<noteq> []" and "\<forall>c \<in> set (number self). is_digit c"
  shows "is_mod10_valid self = Inr (luhn_sum (map digit_value (number self)) mod 10 = 0) \<and>
    (\<forall>i c. i < length (number self) \<and> is_digit c \<and> c \<noteq> number self ! i \<and>
            is_mod10_valid self = Inr True \<longrightarrow>
          is_mod10_valid (self\<lparr>number := (number self)[i := c]\<rparr>) = Inr False)"
proof (intro conjI allI impI)
  show v: "is_mod10_valid self = Inr (luhn_sum (map digit_value (number self)) mod 10 = 0)"
    unfolding is_mod10_valid_def by (rule mod10_valid_luhn [OF assms(2)])
  fix i c
  assume h: "i < length (number self) \<and> is_digit c \<and> c \<noteq> number self ! i \<and>
            is_mod10_valid self = Inr True"
  define ds where "ds = map digit_value (number self)"
  have i: "i < length ds" using h by (simp add: ds_def)
  have di: "is_digit (number self ! i)" using h assms(2) by simp
  have a: "ds ! i < 10" using h di by (simp add: ds_def digit_value_less)
  have b: "digit_value c < 10" using h by (simp add: digit_value_less)
  have n: "digit_value c \<noteq> ds ! i"
    using h di digit_value_inj [of c "number self ! i"] by (auto simp add: ds_def)
  have z: "luhn_sum ds mod 10 = 0" using h v by (simp add: ds_def)
  have d': "\<forall>x \<in> set ((number self)[i := c]). is_digit x"
    using assms(2) h by (auto dest: set_update_subset_insert [THEN subsetD])
  have "luhn_sum (ds[i := digit_value c]) mod 10 \<noteq> 0"
    by (rule luhn_sum_detects [OF i a b n z])
  then show "is_mod10_valid (self\<lparr>number := (number self)[i := c]\<rparr>) = Inr False"
    unfolding is_mod10_valid_def
    by (simp add: mod10_valid_luhn [OF d'] map_update ds_def)
qed

theorem mod10_is_luhn_witness:
  "is_mod10_valid visa_card = Inr True \<and>
   luhn_sum (map digit_value ''4111111111111111'') mod 10 = 0 \<and>
   is_mod10_valid (visa_card\<lparr>number := ''4111111111111112''\<rparr>) = Inr False"
proof -
  have a: "number visa_card \<noteq> []" by (simp add: visa_card_def)
  have b: "\<forall>c \<in> set (number visa_card). is_digit c" by (simp add: visa_card_def is_digit_def)
  note t = mod10_is_luhn [OF a b]
  have n: "number visa_card = ''4111111111111111''" by (simp add: visa_card_def)
  have u: "(number visa_card)[15 := CHR ''2''] = ''4111111111111112''"
    unfolding n by code_simp
  from t have t1: "is_mod10_valid visa_card =
      Inr (luhn_sum (map digit_value ''4111111111111111'') mod 10 = 0)"
    unfolding n by blast
  from t have "15 < length (number visa_card) \<and> is_digit CHR ''2'' \<and>
      CHR ''2'' \<noteq> number visa_card ! 15 \<and> is_mod10_valid visa_card = Inr True \<longrightarrow>
      is_mod10_valid (visa_card\<lparr>number := (number visa_card)[15 := CHR ''2'']\<rparr>) = Inr False"
    by blast
  then have t2: "is_mod10_valid (visa_card\<lparr>number := ''4111111111111112''\<rparr>) = Inr False"
    unfolding u by (simp add: visa_card_mod10 is_digit_def) (simp add: visa_card_def)
  show ?thesis using t1 t2 visa_card_mod10 by simp
qed

text \<open>
  Claim C3, as the code has it.  For the empty number the loop body never runs, the total
  stays 0, and \<open>0 % 10 == 0\<close>: \<open>is_mod10_valid\<close> returns \<open>True\<close>, without raising.
\<close>

theorem empty_number_mod10_true:
  "number self = [] \<Longrightarrow> is_mod10_valid self = Inr True"
  by (simp add: is_mod10_valid_def mod10_valid_def)

theorem empty_number_mod10_true_witness:
  "Card_init ''--'' 12 2030 ''123'' = Inr (visa_card\<lparr>number := []\<rparr>) \<and>
   is_mod10_valid (visa_card\<lparr>number := []\<rparr>) = Inr True"
proof -
  have "number (visa_card\<lparr>number := []\<rparr>) = []" by simp
  then have "is_mod10_valid (visa_card\<lparr>number := []\<rparr>) = Inr True"
    by (rule empty_number_mod10_true)
  moreover have "Card_init ''--'' 12 2030 ''123'' = Inr (visa_card\<lparr>number := []\<rparr>)"
    by (simp add: Card_init_def ExpDate_init_2030 is_digit_def) (simp add: visa_card_def)
  ultimately show ?thesis by simp
qed

text \<open>
  The claim as the specification states it (the empty number is checksum-invalid) fails
  for the card built from the empty string.
\<close>

theorem empty_number_mod10_counterexample:
  "Card_init [] 12 2030 ''123'' = Inr (visa_card\<lparr>number := []\<rparr>) \<and>
   number (visa_card\<lparr>number := []\<rparr>) = [] \<and>
   is_mod10_valid (visa_card\<lparr>number := []\<rparr>) \<noteq> Inr False"
proof -
  have "Card_init [] 12 2030 ''123'' = Inr (visa_card\<lparr>number := []\<rparr>)"
    by (simp add: Card_init_def ExpDate_init_2030) (simp add: visa_card_def)
  moreover have "is_mod10_valid (visa_card\<lparr>number := []\<rparr>) = Inr True"
    by (simp add: is_mod10_valid_def mod10_valid_def)
  ultimately show ?thesis by simp
qed

section \<open>Test numbers\<close>

text \<open>
  Claim C10.  \<open>is_test\<close> is membership of the normalized number in the table
  \<open>TESTS\<close> of 13 distinct strings.  The table holds the 15-digit string
  \<open>555555555554444\<close>, so the 16-digit MasterCard test number \<open>5555555555554444\<close> is
  not a test number and the 15-digit string is.
\<close>

theorem is_test_table:
  "Card_init number_arg month year cvv2_arg = Inr self \<Longrightarrow>
     is_test self =
       (filter is_digit number_arg \<in>
          {''4444333322221111'', ''378282246310005'', ''371449635398431'',
           ''378734493671000'', ''30569309025904'', ''38520000023237'',
           ''6011111111111117'', ''6011000990139424'', ''555555555554444'',
           ''5105105105105100'', ''4111111111111111'', ''4012888888881881'',
           ''4222222222222''}) \<and>
     length TESTS = 13 \<and> distinct TESTS \<and>
     (filter is_digit number_arg = ''5555555555554444'' \<longrightarrow> \<not> is_test self) \<and>
     (filter is_digit number_arg = ''555555555554444'' \<longrightarrow> is_test self)"
proof -
  assume a: "Card_init number_arg month year cvv2_arg = Inr self"
  then have n: "number self = filter is_digit number_arg"
    by (auto simp add: Card_init_def split: sum.splits)
  have l: "length TESTS = 13" by (simp add: TESTS_def)
  have d: "distinct TESTS" by (simp add: TESTS_def)
  show ?thesis
    unfolding is_test_def n using l d by (auto simp add: TESTS_def)
qed

theorem is_test_table_witness:
  "Card_init ''5555-5555-5555-4444'' 12 2030 ''123'' =
     Inr (visa_card\<lparr>number := ''5555555555554444''\<rparr>) \<and>
   \<not> is_test (visa_card\<lparr>number := ''5555555555554444''\<rparr>) \<and>
   Card_init ''555555555554444'' 12 2030 ''123'' =
     Inr (visa_card\<lparr>number := ''555555555554444''\<rparr>) \<and>
   is_test (visa_card\<lparr>number := ''555555555554444''\<rparr>)"
proof -
  have a: "Card_init ''5555-5555-5555-4444'' 12 2030 ''123'' =
      Inr (visa_card\<lparr>number := ''5555555555554444''\<rparr>)"
    by (simp add: Card_init_def ExpDate_init_2030 is_digit_def) (simp add: visa_card_def)
  have b: "Card_init ''555555555554444'' 12 2030 ''123'' =
      Inr (visa_card\<lparr>number := ''555555555554444''\<rparr>)"
    by (simp add: Card_init_def ExpDate_init_2030 is_digit_def) (simp add: visa_card_def)
  have fa: "filter is_digit ''5555-5555-5555-4444'' = ''5555555555554444''"
    by (simp add: is_digit_def)
  have fb: "filter is_digit ''555555555554444'' = ''555555555554444''"
    by (simp add: is_digit_def)
  from is_test_table [OF a] fa
  have ta: "\<not> is_test (visa_card\<lparr>number := ''5555555555554444''\<rparr>)" by simp
  from is_test_table [OF b] fb
  have tb: "is_test (visa_card\<lparr>number := ''555555555554444''\<rparr>)" by simp
  show ?thesis using a b ta tb by simp
qed

section \<open>The calendar and the time line\<close>

subsection \<open>Days before a year and a month\<close>

lemma month_cases:
  fixes m :: int
  assumes "1 \<le> m" "m \<le> 12"
  shows "m = 1 \<or> m = 2 \<or> m = 3 \<or> m = 4 \<or> m = 5 \<or> m = 6 \<or> m = 7 \<or> m = 8 \<or> m = 9
           \<or> m = 10 \<or> m = 11 \<or> m = 12"
  using assms by arith

lemma div_step:
  fixes y k :: int
  assumes "0 < k"
  shows "y div k = (y - 1) div k + (if y mod k = 0 then 1 else 0)"
proof -
  define q where "q = (y - 1) div k"
  define r where "r = (y - 1) mod k"
  have r: "0 \<le> r" "r < k" using assms by (simp_all add: r_def)
  have y: "y = k * q + (r + 1)" by (simp add: q_def r_def)
  show ?thesis
  proof (cases "r + 1 < k")
    case True
    have d: "y div k = q" by (rule int_div_pos_eq [OF y]) (use r True in simp_all)
    have m: "y mod k = r + 1" by (rule int_mod_pos_eq [OF y]) (use r True in simp_all)
    show ?thesis using d m r by (simp add: q_def)
  next
    case False
    then have e: "r + 1 = k" using r by simp
    have y': "y = k * (q + 1) + 0" unfolding y e [symmetric] by (simp add: algebra_simps)
    have d: "y div k = q + 1" by (rule int_div_pos_eq [OF y']) (use assms in simp_all)
    have m: "y mod k = 0" by (rule int_mod_pos_eq [OF y']) (use assms in simp_all)
    show ?thesis using d m by (simp add: q_def)
  qed
qed

lemma m100: "(y::int) mod 100 = 0 \<Longrightarrow> y mod 4 = 0"
  using mod_mod_cancel [of 4 100 y] by simp

lemma m400: "(y::int) mod 400 = 0 \<Longrightarrow> y mod 100 = 0"
  using mod_mod_cancel [of 100 400 y] by simp

lemma days_before_year_Suc:
  "days_before_year (y + 1) = days_before_year y + 365 + (if isleap y then 1 else 0)"
proof -
  define a where "a = (y - 1) div 4"
  define b where "b = (y - 1) div 100"
  define c where "c = (y - 1) div 400"
  have a: "y div 4 = a + (if y mod 4 = 0 then 1 else 0)"
    unfolding a_def by (rule div_step) simp
  have b: "y div 100 = b + (if y mod 100 = 0 then 1 else 0)"
    unfolding b_def by (rule div_step) simp
  have c: "y div 400 = c + (if y mod 400 = 0 then 1 else 0)"
    unfolding c_def by (rule div_step) simp
  have l: "days_before_year (y + 1) = y * 365 + y div 4 - y div 100 + y div 400"
    by (simp add: days_before_year_def Let_def)
  have r: "days_before_year y = (y - 1) * 365 + a - b + c"
    by (simp add: days_before_year_def Let_def a_def b_def c_def)
  show ?thesis
  proof (cases "y mod 400 = 0")
    case True
    from m400 [OF True] have h: "y mod 100 = 0" .
    from m100 [OF h] have f: "y mod 4 = 0" .
    show ?thesis unfolding l r a b c isleap_def by (simp add: True h f)
  next
    case n4: False
    show ?thesis
    proof (cases "y mod 100 = 0")
      case True
      from m100 [OF True] have f: "y mod 4 = 0" .
      show ?thesis unfolding l r a b c isleap_def by (simp add: True n4 f)
    next
      case False
      show ?thesis unfolding l r a b c isleap_def by (simp add: False n4)
    qed
  qed
qed


lemma days_before_month_Suc:
  assumes "1 \<le> m" "m < 12"
  shows "days_before_month y (m + 1) = days_before_month y m + days_in_month y m"
proof -
  have "m \<le> 12" using assms by simp
  from month_cases [OF assms(1) this] assms(2) show ?thesis
    by (elim disjE)
      (simp_all add: days_before_month_def DAYS_BEFORE_MONTH_def days_in_month_def mdays_def)
qed


lemma days_in_month_bounds:
  assumes "1 \<le> m" "m \<le> 12"
  shows "28 \<le> days_in_month y m \<and> days_in_month y m \<le> 31"
  using month_cases [OF assms]
  by (elim disjE) (simp_all add: days_in_month_def mdays_def)

lemma days_before_month_bounds:
  assumes "1 \<le> m" "m \<le> 12"
  shows "0 \<le> days_before_month y m \<and>
         days_before_month y m + days_in_month y m \<le> 365 + (if isleap y then 1 else 0)"
  using month_cases [OF assms]
  by (elim disjE)
    (simp_all add: days_before_month_def DAYS_BEFORE_MONTH_def days_in_month_def mdays_def)

lemma days_before_month_mono:
  "1 \<le> m \<Longrightarrow> m + 1 + int k \<le> 12 \<Longrightarrow>
     days_before_month y m + days_in_month y m \<le> days_before_month y (m + 1 + int k)"
proof (induction k)
  case 0
  then show ?case using days_before_month_Suc [of m y] by simp
next
  case (Suc k)
  have a: "1 \<le> m + 1 + int k" "m + 1 + int k < 12" "m + 1 + int k \<le> 12"
    using Suc.prems by simp_all
  have "days_before_month y (m + 1 + int (Suc k)) =
      days_before_month y (m + 1 + int k) + days_in_month y (m + 1 + int k)"
    using days_before_month_Suc [OF a(1,2), of y] by (simp add: add.assoc)
  moreover have "28 \<le> days_in_month y (m + 1 + int k)"
    using days_in_month_bounds [OF a(1,3)] by simp
  ultimately show ?case using Suc.IH [OF Suc.prems(1) a(3)] by simp
qed

lemma days_before_year_mono:
  "days_before_year y \<le> days_before_year (y + int k)"
proof (induction k)
  case 0
  then show ?case by simp
next
  case (Suc k)
  have e: "y + int (Suc k) = y + int k + 1" by simp
  show ?case unfolding e days_before_year_Suc using Suc.IH by simp
qed

lemma ymd2ord_year_less:
  assumes "valid_date y m d" "valid_date y' m' d'" "y < y'"
  shows "ymd2ord y m d < ymd2ord y' m' d'"
proof -
  have v: "1 \<le> m" "m \<le> 12" "1 \<le> d" "d \<le> days_in_month y m"
    and v': "1 \<le> m'" "m' \<le> 12" "1 \<le> d'"
    using assms by (simp_all add: valid_date_def)
  obtain k where k: "y' = y + 1 + int k"
    using assms(3) by (metis add.commute zless_iff_Suc_zadd of_nat_Suc add.assoc)
  have "ymd2ord y m d \<le> days_before_year y + 365 + (if isleap y then 1 else 0)"
    using days_before_month_bounds [OF v(1,2), of y] v(4) by (simp add: ymd2ord_def)
  also have "\<dots> = days_before_year (y + 1)" by (simp add: days_before_year_Suc)
  also have "\<dots> \<le> days_before_year y'" unfolding k by (rule days_before_year_mono)
  also have "\<dots> < ymd2ord y' m' d'"
    using days_before_month_bounds [OF v'(1,2), of y'] v'(3) by (simp add: ymd2ord_def)
  finally show ?thesis .
qed

lemma ymd2ord_month_less:
  assumes "valid_date y m d" "valid_date y m' d'" "m < m'"
  shows "ymd2ord y m d < ymd2ord y m' d'"
proof -
  have v: "1 \<le> m" "m \<le> 12" "1 \<le> d" "d \<le> days_in_month y m"
    and v': "1 \<le> m'" "m' \<le> 12" "1 \<le> d'"
    using assms by (simp_all add: valid_date_def)
  obtain k where k: "m' = m + 1 + int k"
    using assms(3) by (metis add.commute zless_iff_Suc_zadd of_nat_Suc add.assoc)
  have "days_before_month y m + days_in_month y m \<le> days_before_month y m'"
    unfolding k by (rule days_before_month_mono) (use v v' k in simp_all)
  then show ?thesis using v v' by (simp add: ymd2ord_def)
qed


lemma lex_less_imp:
  fixes a a' r r' D :: int
  assumes "0 \<le> r" "r < D" "0 \<le> r'" "a < a'"
  shows "a * D + r < a' * D + r'"
proof -
  have d: "0 \<le> D" using assms(1,2) by simp
  have "a + 1 \<le> a'" using assms(4) by simp
  then have "(a + 1) * D \<le> a' * D" using d by (rule mult_right_mono)
  moreover have "a * D + r < (a + 1) * D" using assms(2) by (simp add: algebra_simps)
  ultimately show ?thesis using assms(3) by linarith
qed

lemma lex_less_iff:
  fixes a a' r r' D :: int
  assumes "0 \<le> r" "r < D" "0 \<le> r'" "r' < D"
  shows "a * D + r < a' * D + r' \<longleftrightarrow> a < a' \<or> (a = a' \<and> r < r')"
proof -
  consider "a < a'" | "a' < a" | "a = a'" by linarith
  then show ?thesis
  proof cases
    case 1
    with lex_less_imp [OF assms(1,2,3) 1] show ?thesis by simp
  next
    case 2
    with lex_less_imp [OF assms(3,4,1) 2] show ?thesis by simp
  next
    case 3
    then show ?thesis by simp
  qed
qed


lemma time_of_day_range:
  fixes h mi s us :: int
  assumes "0 \<le> h" "h \<le> 23" "0 \<le> mi" "mi \<le> 59" "0 \<le> s" "s \<le> 59" "0 \<le> us" "us \<le> 999999"
  shows "0 \<le> ((h * 60 + mi) * 60 + s) * 1000000 + us \<and>
         ((h * 60 + mi) * 60 + s) * 1000000 + us < 86400000000"
proof -
  define a where "a = h * 60 + mi"
  define b where "b = a * 60 + s"
  have a: "0 \<le> a" "a \<le> 1439" using assms by (simp_all add: a_def)
  have b: "0 \<le> b" "b \<le> 86399" using a assms by (simp_all add: b_def)
  have "0 \<le> b * 1000000 + us" "b * 1000000 + us < 86400000000" using b assms by simp_all
  then show ?thesis by (simp add: a_def b_def)
qed

lemma time_of_day_less:
  fixes h mi s us h' mi' s' us' :: int
  assumes "0 \<le> mi" "mi \<le> 59" "0 \<le> s" "s \<le> 59" "0 \<le> us" "us \<le> 999999"
    and "0 \<le> mi'" "mi' \<le> 59" "0 \<le> s'" "s' \<le> 59" "0 \<le> us'" "us' \<le> 999999"
  shows "((h * 60 + mi) * 60 + s) * 1000000 + us < ((h' * 60 + mi') * 60 + s') * 1000000 + us'
     \<longleftrightarrow> h < h' \<or> (h = h' \<and> (mi < mi' \<or> (mi = mi' \<and> (s < s' \<or> (s = s' \<and> us < us')))))"
proof -
  have u: "us < 1000000" "us' < 1000000" using assms by simp_all
  have v: "s < 60" "s' < 60" using assms by simp_all
  have w: "mi < 60" "mi' < 60" using assms by simp_all
  have 1: "((h * 60 + mi) * 60 + s) * 1000000 + us < ((h' * 60 + mi') * 60 + s') * 1000000 + us'
     \<longleftrightarrow> (h * 60 + mi) * 60 + s < (h' * 60 + mi') * 60 + s' \<or>
        ((h * 60 + mi) * 60 + s = (h' * 60 + mi') * 60 + s' \<and> us < us')"
    by (rule lex_less_iff) (use assms u in simp_all)
  have 2: "(h * 60 + mi) * 60 + s < (h' * 60 + mi') * 60 + s' \<longleftrightarrow>
      h * 60 + mi < h' * 60 + mi' \<or> (h * 60 + mi = h' * 60 + mi' \<and> s < s')"
    by (rule lex_less_iff) (use assms v in simp_all)
  have 3: "h * 60 + mi < h' * 60 + mi' \<longleftrightarrow> h < h' \<or> (h = h' \<and> mi < mi')"
    by (rule lex_less_iff) (use assms w in simp_all)
  have 4: "h * 60 + mi = h' * 60 + mi' \<longleftrightarrow> h = h' \<and> mi = mi'"
    using 3 lex_less_iff [of mi' 60 mi h' h] assms w by linarith
  have 5: "(h * 60 + mi) * 60 + s = (h' * 60 + mi') * 60 + s' \<longleftrightarrow>
      h * 60 + mi = h' * 60 + mi' \<and> s = s'"
    using 2 lex_less_iff [of s' 60 s "h' * 60 + mi'" "h * 60 + mi"] assms v by linarith
  show ?thesis unfolding 1 2 3 5 4 by auto
qed


lemma ymd2ord_lex:
  assumes "valid_date y m d" "valid_date y' m' d'"
  shows "ymd2ord y m d < ymd2ord y' m' d' \<longleftrightarrow>
         y < y' \<or> (y = y' \<and> (m < m' \<or> (m = m' \<and> d < d')))"
proof -
  consider "y < y'" | "y' < y" | "y = y'" "m < m'" | "y = y'" "m' < m" | "y = y'" "m = m'"
    by linarith
  then show ?thesis
  proof cases
    case 1
    with ymd2ord_year_less [OF assms 1] show ?thesis by simp
  next
    case 2
    with ymd2ord_year_less [OF assms(2,1) 2] show ?thesis by simp
  next
    case 3
    with ymd2ord_month_less [of y m d m' d'] assms show ?thesis by simp
  next
    case 4
    with ymd2ord_month_less [of y m' d' m d] assms show ?thesis by simp
  next
    case 5
    then show ?thesis by (simp add: ymd2ord_def)
  qed
qed


lemma ymd2ord_eq:
  assumes "valid_date y m d" "valid_date y' m' d'"
  shows "ymd2ord y m d = ymd2ord y' m' d' \<longleftrightarrow> y = y' \<and> m = m' \<and> d = d'"
  using ymd2ord_lex [OF assms] ymd2ord_lex [OF assms(2,1)] by auto

lemma to_micros_split:
  "to_micros d = (ymd2ord (dt_year d) (dt_month d) (dt_day d) - 1) * 86400000000 +
     (((dt_hour d * 60 + dt_minute d) * 60 + dt_second d) * 1000000 + dt_microsecond d)"
  by (simp add: to_micros_def micros_of_def algebra_simps)

lemma datetime_gt_iff:
  assumes "valid_datetime a" "valid_datetime b"
  shows "datetime_gt a b \<longleftrightarrow> to_micros b < to_micros a"
proof -
  have da: "valid_date (dt_year a) (dt_month a) (dt_day a)"
    and db: "valid_date (dt_year b) (dt_month b) (dt_day b)"
    using assms by (simp_all add: valid_datetime_def)
  have ta: "0 \<le> dt_hour a" "dt_hour a \<le> 23" "0 \<le> dt_minute a" "dt_minute a \<le> 59"
      "0 \<le> dt_second a" "dt_second a \<le> 59" "0 \<le> dt_microsecond a"
      "dt_microsecond a \<le> 999999"
    using assms(1) by (simp_all add: valid_datetime_def valid_time_def)
  have tb: "0 \<le> dt_hour b" "dt_hour b \<le> 23" "0 \<le> dt_minute b" "dt_minute b \<le> 59"
      "0 \<le> dt_second b" "dt_second b \<le> 59" "0 \<le> dt_microsecond b"
      "dt_microsecond b \<le> 999999"
    using assms(2) by (simp_all add: valid_datetime_def valid_time_def)
  note ra = time_of_day_range [OF ta]
  note rb = time_of_day_range [OF tb]
  have 1: "to_micros b < to_micros a \<longleftrightarrow>
      ymd2ord (dt_year b) (dt_month b) (dt_day b) - 1 < ymd2ord (dt_year a) (dt_month a) (dt_day a) - 1 \<or>
      (ymd2ord (dt_year b) (dt_month b) (dt_day b) - 1 = ymd2ord (dt_year a) (dt_month a) (dt_day a) - 1 \<and>
       ((dt_hour b * 60 + dt_minute b) * 60 + dt_second b) * 1000000 + dt_microsecond b <
       ((dt_hour a * 60 + dt_minute a) * 60 + dt_second a) * 1000000 + dt_microsecond a)"
    unfolding to_micros_split
    by (rule lex_less_iff) (use ra rb in simp_all)
  have 2: "ymd2ord (dt_year b) (dt_month b) (dt_day b) - 1 < ymd2ord (dt_year a) (dt_month a) (dt_day a) - 1
      \<longleftrightarrow> dt_year b < dt_year a \<or> (dt_year b = dt_year a \<and>
          (dt_month b < dt_month a \<or> (dt_month b = dt_month a \<and> dt_day b < dt_day a)))"
    using ymd2ord_lex [OF db da] by simp
  have 3: "ymd2ord (dt_year b) (dt_month b) (dt_day b) - 1 = ymd2ord (dt_year a) (dt_month a) (dt_day a) - 1
      \<longleftrightarrow> dt_year b = dt_year a \<and> dt_month b = dt_month a \<and> dt_day b = dt_day a"
    using ymd2ord_eq [OF db da] by simp
  note 4 = time_of_day_less [OF tb(3-8) ta(3-8), of "dt_hour b" "dt_hour a"]
  show ?thesis
    unfolding 1 2 3 4 datetime_gt_def dt_fields_def by auto
qed

subsection \<open>Subtracting hours\<close>

lemma previous_day_ok:
  assumes "valid_date y m d" "previous_day y m d = Inr (y', m', d')"
  shows "valid_date y' m' d' \<and> ymd2ord y' m' d' = ymd2ord y m d - 1"
proof -
  have v: "1 \<le> y" "y \<le> 9999" "1 \<le> m" "m \<le> 12" "1 \<le> d" "d \<le> days_in_month y m"
    using assms(1) by (simp_all add: valid_date_def)
  show ?thesis
  proof (cases "d > 1")
    case True
    with assms(2) have "y' = y" "m' = m" "d' = d - 1" by (auto simp add: previous_day_def)
    with v True show ?thesis by (simp add: valid_date_def ymd2ord_def)
  next
    case d1: False
    show ?thesis
    proof (cases "m > 1")
      case True
      with d1 assms(2) have e: "y' = y" "m' = m - 1" "d' = days_in_month y (m - 1)"
        by (auto simp add: previous_day_def)
      have a: "1 \<le> m - 1" "m - 1 < 12" "m - 1 \<le> 12" using True v by simp_all
      have "days_before_month y m = days_before_month y (m - 1) + days_in_month y (m - 1)"
        using days_before_month_Suc [OF a(1,2), of y] by simp
      moreover have "d = 1" using d1 v by simp
      ultimately show ?thesis
        using v a days_in_month_bounds [OF a(1,3), of y]
        by (simp add: e valid_date_def ymd2ord_def)
    next
      case m1: False
      have dm: "d = 1" "m = 1" using d1 m1 v by simp_all
      have y1: "y > 1" using assms(2) d1 m1 by (simp add: previous_day_def split: if_splits)
      with d1 m1 assms(2) have e: "y' = y - 1" "m' = 12" "d' = 31"
        by (auto simp add: previous_day_def)
      have "days_before_year y = days_before_year (y - 1) + 365 + (if isleap (y - 1) then 1 else 0)"
        using days_before_year_Suc [of "y - 1"] by simp
      then show ?thesis
        using v y1
        by (simp add: e dm valid_date_def ymd2ord_def days_in_month_def mdays_def
            days_before_month_def DAYS_BEFORE_MONTH_def)
    qed
  qed
qed


lemma previous_day_error:
  assumes "valid_date y m d" "previous_day y m d = Inl e"
  shows "e = OverflowError \<and> y = 1 \<and> m = 1 \<and> d = 1"
  using assms by (auto simp add: previous_day_def valid_date_def split: if_splits)

lemma minus_hours_ok:
  assumes "valid_datetime d" "0 \<le> h" "h \<le> 24" "minus_hours d h = Inr d'"
  shows "valid_datetime d' \<and> to_micros d' = to_micros d - h * 3600000000"
proof (cases "h \<le> dt_hour d")
  case True
  with assms(4) have e: "d' = d\<lparr>dt_hour := dt_hour d - h\<rparr>" by (simp add: minus_hours_def)
  show ?thesis
    using assms(1,2) True
    by (simp add: e valid_datetime_def valid_time_def to_micros_def micros_of_def algebra_simps)
next
  case False
  from assms(4) False obtain y m dd where
    p: "previous_day (dt_year d) (dt_month d) (dt_day d) = Inr (y, m, dd)"
    and e: "d' = d\<lparr>dt_year := y, dt_month := m, dt_day := dd, dt_hour := dt_hour d + 24 - h\<rparr>"
    by (auto simp add: minus_hours_def split: sum.splits)
  have v: "valid_date (dt_year d) (dt_month d) (dt_day d)"
    using assms(1) by (simp add: valid_datetime_def)
  from previous_day_ok [OF v p]
  have q: "valid_date y m dd" "ymd2ord y m dd = ymd2ord (dt_year d) (dt_month d) (dt_day d) - 1"
    by simp_all
  show ?thesis
    using assms(1,3) False q
    by (simp add: e valid_datetime_def valid_time_def to_micros_def micros_of_def algebra_simps)
qed

lemma minus_hours_error:
  assumes "valid_datetime d" "minus_hours d h = Inl e"
  shows "e = OverflowError \<and> to_micros d < h * 3600000000"
proof -
  have hh: "\<not> h \<le> dt_hour d" using assms(2) by (auto simp add: minus_hours_def)
  then have p: "previous_day (dt_year d) (dt_month d) (dt_day d) = Inl e"
    using assms(2) by (auto simp add: minus_hours_def split: sum.splits)
  have v: "valid_date (dt_year d) (dt_month d) (dt_day d)"
    using assms(1) by (simp add: valid_datetime_def)
  from previous_day_error [OF v p]
  have q: "e = OverflowError" "dt_year d = 1" "dt_month d = 1" "dt_day d = 1" by simp_all
  have o: "ymd2ord 1 1 1 = 1"
    by (simp add: ymd2ord_def days_before_year_def days_before_month_def DAYS_BEFORE_MONTH_def)
  have t: "dt_minute d \<le> 59" "dt_second d \<le> 59" "dt_microsecond d \<le> 999999"
    using assms(1) by (simp_all add: valid_datetime_def valid_time_def)
  have "dt_hour d + 1 \<le> h" using hh by simp
  then have "to_micros d < h * 3600000000"
    using t by (simp add: to_micros_def micros_of_def q o)
  with q(1) show ?thesis by simp
qed


lemma monthrange_days:
  assumes "1 \<le> month" "month \<le> 12"
  shows "mdays ! nat month + (if month = 2 \<and> isleap year then 1 else 0) =
         days_in_month year month"
  using month_cases [OF assms]
  by (elim disjE) (simp_all add: days_in_month_def mdays_def)

lemma ExpDate_init_Inr:
  "ExpDate_init month year = Inr self \<longleftrightarrow>
     1 \<le> month \<and> month \<le> 12 \<and> 1 \<le> year \<and> year \<le> 9999 \<and>
     self = \<lparr>expired_after =
        \<lparr>dt_year = year, dt_month = month, dt_day = days_in_month year month,
         dt_hour = 23, dt_minute = 59, dt_second = 59, dt_microsecond = 999999\<rparr>\<rparr>"
proof (cases "1 \<le> month \<and> month \<le> 12")
  case False
  then show ?thesis by (auto simp add: ExpDate_init_def monthrange_def)
next
  case True
  then have m: "1 \<le> month" "month \<le> 12" by simp_all
  have b: "28 \<le> days_in_month year month" using days_in_month_bounds [OF m] by simp
  have w: "calendar_weekday year month 1 =
      (if 1 \<le> year \<and> year \<le> 9999 then Inr ((ymd2ord year month 1 + 6) mod 7)
       else Inl ValueError)"
    using m b by (simp add: calendar_weekday_def valid_date_def)
  show ?thesis
    using m b
    by (auto simp add: ExpDate_init_def monthrange_def w monthrange_days [OF m]
        datetime_new_def valid_date_def valid_time_def)
qed

section \<open>Expiration\<close>

lemma isleap_dvd: "isleap y \<longleftrightarrow> 4 dvd y \<and> (\<not> 100 dvd y \<or> 400 dvd y)"
  by (simp add: isleap_def mod_eq_0_iff_dvd)

lemma days_in_month_explicit:
  assumes "1 \<le> m" "m \<le> 12"
  shows "days_in_month y m =
     (if m = 2 then (if isleap y then 29 else 28)
      else if m = 4 \<or> m = 6 \<or> m = 9 \<or> m = 11 then 30 else 31)"
  using month_cases [OF assms]
  by (elim disjE) (simp_all add: days_in_month_def mdays_def)

lemma month_end_next:
  assumes "1 \<le> month" "month \<le> 12"
  shows "micros_of year month (days_in_month year month) 23 59 59 999999 + 1 =
     (if month = 12 then micros_of (year + 1) 1 1 0 0 0 0
      else micros_of year (month + 1) 1 0 0 0 0)"
proof (cases "month = 12")
  case True
  have "ymd2ord year 12 (days_in_month year 12) + 1 = ymd2ord (year + 1) 1 1"
    by (simp add: ymd2ord_def days_before_year_Suc days_in_month_def mdays_def
        days_before_month_def DAYS_BEFORE_MONTH_def)
  then show ?thesis using True by (simp add: micros_of_def)
next
  case False
  then have l: "month < 12" using assms by simp
  have "ymd2ord year month (days_in_month year month) + 1 = ymd2ord year (month + 1) 1"
    by (simp add: ymd2ord_def days_before_month_Suc [OF assms(1) l])
  then show ?thesis using False by (simp add: micros_of_def)
qed

text \<open>
  Claim C8.  When the \<open>ExpDate\<close> constructor succeeds, \<open>expired_after\<close> is the given
  year and month, on the month's last day (28, 29, 30 or 31 by the Gregorian leap-year
  rule), at 23:59:59.999999: no valid day of that month is later, and one microsecond
  later is midnight of the first day of the following month.  For February 2024 the day
  is 29.
\<close>

theorem expired_after_is_month_end:
  assumes "ExpDate_init month year = Inr self"
  shows "expired_after self =
      \<lparr>dt_year = year, dt_month = month,
       dt_day =
         (if month = 2 then (if 4 dvd year \<and> (\<not> 100 dvd year \<or> 400 dvd year) then 29 else 28)
          else if month = 4 \<or> month = 6 \<or> month = 9 \<or> month = 11 then 30 else 31),
       dt_hour = 23, dt_minute = 59, dt_second = 59, dt_microsecond = 999999\<rparr> \<and>
    valid_datetime (expired_after self) \<and>
    (\<forall>d. valid_date year month d \<longrightarrow> d \<le> dt_day (expired_after self)) \<and>
    to_micros (expired_after self) + 1 =
      (if month = 12 then micros_of (year + 1) 1 1 0 0 0 0
       else micros_of year (month + 1) 1 0 0 0 0) \<and>
    (month = 2 \<and> year = 2024 \<longrightarrow> dt_day (expired_after self) = 29)"
proof -
  from assms have m: "1 \<le> month" "month \<le> 12" and y: "1 \<le> year" "year \<le> 9999"
    and e: "expired_after self =
        \<lparr>dt_year = year, dt_month = month, dt_day = days_in_month year month,
         dt_hour = 23, dt_minute = 59, dt_second = 59, dt_microsecond = 999999\<rparr>"
    by (simp_all add: ExpDate_init_Inr)
  have b: "28 \<le> days_in_month year month" using days_in_month_bounds [OF m] by simp
  have 1: "days_in_month year month =
      (if month = 2 then (if 4 dvd year \<and> (\<not> 100 dvd year \<or> 400 dvd year) then 29 else 28)
       else if month = 4 \<or> month = 6 \<or> month = 9 \<or> month = 11 then 30 else 31)"
    unfolding days_in_month_explicit [OF m] isleap_dvd ..
  have 2: "valid_datetime (expired_after self)"
    using m y b by (simp add: e valid_datetime_def valid_date_def valid_time_def)
  have 3: "\<forall>d. valid_date year month d \<longrightarrow> d \<le> dt_day (expired_after self)"
    by (simp add: e valid_date_def)
  have 4: "to_micros (expired_after self) + 1 =
      (if month = 12 then micros_of (year + 1) 1 1 0 0 0 0
       else micros_of year (month + 1) 1 0 0 0 0)"
    using month_end_next [OF m, of year] by (simp add: e to_micros_def)
  have 5: "month = 2 \<and> year = 2024 \<longrightarrow> dt_day (expired_after self) = 29"
    by (simp add: e days_in_month_def isleap_def)
  show ?thesis using 1 2 3 4 5 e by simp
qed


theorem expired_after_is_month_end_witness:
  "ExpDate_init 2 2024 =
     Inr \<lparr>expired_after =
       \<lparr>dt_year = 2024, dt_month = 2, dt_day = 29, dt_hour = 23, dt_minute = 59,
        dt_second = 59, dt_microsecond = 999999\<rparr>\<rparr> \<and>
   to_micros \<lparr>dt_year = 2024, dt_month = 2, dt_day = 29, dt_hour = 23, dt_minute = 59,
        dt_second = 59, dt_microsecond = 999999\<rparr> + 1 = micros_of 2024 3 1 0 0 0 0"
proof -
  define e where "e = \<lparr>expired_after =
       \<lparr>dt_year = 2024, dt_month = 2, dt_day = 29, dt_hour = 23, dt_minute = 59,
        dt_second = 59, dt_microsecond = 999999\<rparr>\<rparr>"
  have i: "ExpDate_init 2 2024 = Inr e"
    by (simp add: e_def ExpDate_init_def monthrange_def calendar_weekday_def valid_date_def
        days_in_month_def mdays_def isleap_def datetime_new_def valid_time_def)
  note t = expired_after_is_month_end [OF i]
  from t [THEN conjunct2, THEN conjunct2, THEN conjunct2, THEN conjunct1]
  have "to_micros (expired_after e) + 1 = micros_of 2024 3 1 0 0 0 0" by simp
  then have "to_micros \<lparr>dt_year = 2024, dt_month = 2, dt_day = 29, dt_hour = 23,
      dt_minute = 59, dt_second = 59, dt_microsecond = 999999\<rparr> + 1 =
      micros_of 2024 3 1 0 0 0 0"
    unfolding e_def by (simp only: ExpDate.simps)
  with i [unfolded e_def] show ?thesis by (rule conjI)
qed

text \<open>
  Claim C7.  \<open>is_expired\<close> is true exactly when the clock reading, moved back by 11
  hours, is strictly later on the time line than \<open>expired_after\<close>; at the same instant
  or earlier it is false.  \<open>Card.is_expired\<close> returns what its expiration date returns.
  The clock is at least 11 hours after 0001-01-01 00:00:00, the earliest datetime, so that
  the shifted time exists.
\<close>

theorem is_expired_samoa:
  assumes "valid_datetime (utcnow env)" and "valid_datetime (expired_after self)"
    and "11 * 3600000000 \<le> to_micros (utcnow env)"
  shows "ExpDate_is_expired env self =
      Inr (to_micros (expired_after self) < to_micros (utcnow env) - 11 * 3600000000) \<and>
    Card_is_expired env \<lparr>number = n, exp_date = self, cvv2 = c\<rparr> =
      Inr (to_micros (expired_after self) < to_micros (utcnow env) - 11 * 3600000000)"
proof -
  obtain samoa_now where s: "minus_hours (utcnow env) 11 = Inr samoa_now"
  proof (cases "minus_hours (utcnow env) 11")
    case (Inl e)
    from minus_hours_error [OF assms(1) Inl] assms(3) have False by simp
    then show ?thesis ..
  next
    case (Inr d)
    then show ?thesis by (rule that)
  qed
  from minus_hours_ok [OF assms(1) _ _ s]
  have v: "valid_datetime samoa_now"
    and t: "to_micros samoa_now = to_micros (utcnow env) - 11 * 3600000000"
    by simp_all
  have "ExpDate_is_expired env self =
      Inr (to_micros (expired_after self) < to_micros (utcnow env) - 11 * 3600000000)"
    by (simp add: ExpDate_is_expired_def s datetime_gt_iff [OF v assms(2)] t)
  then show ?thesis by (simp add: Card_is_expired_def)
qed


lemmas calendar_eval =
  valid_datetime_def valid_date_def valid_time_def days_in_month_def mdays_def isleap_def
  to_micros_def micros_of_def ymd2ord_def days_before_year_def days_before_month_def
  DAYS_BEFORE_MONTH_def Let_def

theorem is_expired_samoa_witness:
  "ExpDate_is_expired clock_2026 (exp_date visa_card) = Inr False \<and>
   ExpDate_is_expired
     \<lparr>utcnow = \<lparr>dt_year = 2031, dt_month = 1, dt_day = 1, dt_hour = 10, dt_minute = 59,
        dt_second = 59, dt_microsecond = 999999\<rparr>, iteritems = BRANDS\<rparr>
     (exp_date visa_card) = Inr False \<and>
   ExpDate_is_expired
     \<lparr>utcnow = \<lparr>dt_year = 2031, dt_month = 1, dt_day = 1, dt_hour = 11, dt_minute = 0,
        dt_second = 0, dt_microsecond = 0\<rparr>, iteritems = BRANDS\<rparr>
     (exp_date visa_card) = Inr True"
proof -
  define e where "e = exp_date visa_card"
  define c1 where "c1 = \<lparr>utcnow = \<lparr>dt_year = 2031, dt_month = 1, dt_day = 1, dt_hour = 10,
      dt_minute = 59, dt_second = 59, dt_microsecond = 999999\<rparr>, iteritems = BRANDS\<rparr>"
  define c2 where "c2 = \<lparr>utcnow = \<lparr>dt_year = 2031, dt_month = 1, dt_day = 1, dt_hour = 11,
      dt_minute = 0, dt_second = 0, dt_microsecond = 0\<rparr>, iteritems = BRANDS\<rparr>"
  have ve: "valid_datetime (expired_after e)"
    and te: "to_micros (expired_after e) = 64060588799999999"
    by (simp_all add: e_def visa_card_def calendar_eval)
  have v0: "valid_datetime (utcnow clock_2026)"
    and t0: "to_micros (utcnow clock_2026) = 63929563200000000"
    by (simp_all add: clock_2026_def calendar_eval)
  have v1: "valid_datetime (utcnow c1)" and t1: "to_micros (utcnow c1) = 64060628399999999"
    by (simp_all add: c1_def calendar_eval)
  have v2: "valid_datetime (utcnow c2)" and t2: "to_micros (utcnow c2) = 64060628400000000"
    by (simp_all add: c2_def calendar_eval)
  have "ExpDate_is_expired clock_2026 e = Inr False"
    using is_expired_samoa [OF v0 ve, THEN conjunct1] by (simp add: t0 te)
  moreover have "ExpDate_is_expired c1 e = Inr False"
    using is_expired_samoa [OF v1 ve, THEN conjunct1] by (simp add: t1 te)
  moreover have "ExpDate_is_expired c2 e = Inr True"
    using is_expired_samoa [OF v2 ve, THEN conjunct1] by (simp add: t2 te)
  ultimately show ?thesis unfolding e_def c1_def c2_def by simp
qed

section \<open>Brand classification\<close>

lemma re_ends_Bol_Seq: "re_ends s (Seq Bol r) 0 = re_ends s r 0"
  by simp

lemma re_ends_Lit_Seq:
  "re_ends s (Seq (Lit c) r) i = (if i < length s \<and> s ! i = c then re_ends s r (Suc i) else [])"
  by auto

lemma re_ends_Alt_Seq:
  "re_ends s (Seq (Alt a b) r) i = re_ends s (Seq a r) i @ re_ends s (Seq b r) i"
  by simp

lemma concat_map_concat:
  "concat (map f (concat xss)) = concat (map (\<lambda>xs. concat (map f xs)) xss)"
  by (induction xss) simp_all

lemma re_ends_Seq_Seq:
  "re_ends s (Seq (Seq a b) r) i = re_ends s (Seq a (Seq b r)) i"
proof -
  have "re_ends s (Seq b r) = (\<lambda>x. concat (map (re_ends s r) (re_ends s b x)))"
    by (rule ext) simp
  then show ?thesis by (simp add: concat_map_concat comp_def)
qed

lemma visa_first: "re_match visa_re s \<Longrightarrow> 0 < length s \<and> s ! 0 = CHR ''4''"
  unfolding re_match_def visa_re_def seqs.simps re_ends_Bol_Seq re_ends_Lit_Seq
  by (simp split: if_splits)

lemma amex_first: "re_match amex_re s \<Longrightarrow> 0 < length s \<and> s ! 0 = CHR ''3''"
  unfolding re_match_def amex_re_def seqs.simps re_ends_Bol_Seq re_ends_Lit_Seq
  by (simp split: if_splits)

lemma mastercard_first:
  "re_match mastercard_re s \<Longrightarrow>
     0 < length s \<and> (s ! 0 = CHR ''5'' \<or> (s ! 0 = CHR ''6'' \<and> 1 < length s \<and> s ! 1 = CHR ''7''))"
  unfolding re_match_def mastercard_re_def lits_def list.map seqs.simps re_ends_Bol_Seq
    re_ends_Alt_Seq re_ends_Seq_Seq re_ends_Lit_Seq
  by (simp split: if_splits)

lemma discover_first:
  "re_match discover_re s \<Longrightarrow>
     0 < length s \<and> s ! 0 = CHR ''6'' \<and> 1 < length s \<and> (s ! 1 = CHR ''0'' \<or> s ! 1 = CHR ''5'')"
  unfolding re_match_def discover_re_def lits_def list.map seqs.simps re_ends_Bol_Seq
    re_ends_Alt_Seq re_ends_Seq_Seq re_ends_Lit_Seq
  by (simp split: if_splits)


lemma patterns_exclusive:
  "\<not> (re_match visa_re s \<and> re_match mastercard_re s)"
  "\<not> (re_match visa_re s \<and> re_match amex_re s)"
  "\<not> (re_match visa_re s \<and> re_match discover_re s)"
  "\<not> (re_match mastercard_re s \<and> re_match amex_re s)"
  "\<not> (re_match mastercard_re s \<and> re_match discover_re s)"
  "\<not> (re_match amex_re s \<and> re_match discover_re s)"
  using visa_first [of s] mastercard_first [of s] amex_first [of s] discover_first [of s]
  by auto

lemma brand_loop_cases:
  "(brand_loop items num = BRAND_UNKNOWN \<and> (\<forall>(b, r) \<in> set items. \<not> re_match r num)) \<or>
   (\<exists>r. (brand_loop items num, r) \<in> set items \<and> re_match r num)"
proof (induction items)
  case Nil
  show ?case by simp
next
  case (Cons p items)
  obtain b r where p: "p = (b, r)" by (cases p)
  show ?case
  proof (cases "re_match r num")
    case True
    then have "(brand_loop (p # items) num, r) \<in> set (p # items) \<and> re_match r num"
      by (simp add: p)
    then show ?thesis by blast
  next
    case False
    then have e: "brand_loop (p # items) num = brand_loop items num" by (simp add: p)
    from Cons.IH show ?thesis
    proof
      assume "brand_loop items num = BRAND_UNKNOWN \<and>
          (\<forall>(b, r) \<in> set items. \<not> re_match r num)"
      then show ?thesis using False by (simp add: e p)
    next
      assume "\<exists>r. (brand_loop items num, r) \<in> set items \<and> re_match r num"
      then obtain r' where "(brand_loop items num, r') \<in> set items" "re_match r' num"
        by blast
      then have "(brand_loop (p # items) num, r') \<in> set (p # items) \<and> re_match r' num"
        by (simp add: e)
      then show ?thesis by blast
    qed
  qed
qed

lemma brand_names_distinct:
  "distinct [BRAND_VISA, BRAND_MASTERCARD, BRAND_AMEX, BRAND_DISCOVER, BRAND_UNKNOWN]"
  by (simp add: BRAND_VISA_def BRAND_MASTERCARD_def BRAND_AMEX_def BRAND_DISCOVER_def
      BRAND_UNKNOWN_def)

lemma brand_loop_by_pattern:
  assumes "set items = set BRANDS"
  shows "(brand_loop items num = BRAND_VISA \<longleftrightarrow> re_match visa_re num) \<and>
    (brand_loop items num = BRAND_MASTERCARD \<longleftrightarrow> re_match mastercard_re num) \<and>
    (brand_loop items num = BRAND_AMEX \<longleftrightarrow> re_match amex_re num) \<and>
    (brand_loop items num = BRAND_DISCOVER \<longleftrightarrow> re_match discover_re num) \<and>
    (brand_loop items num = BRAND_UNKNOWN \<longleftrightarrow>
       \<not> re_match visa_re num \<and> \<not> re_match mastercard_re num \<and>
       \<not> re_match amex_re num \<and> \<not> re_match discover_re num)"
proof -
  define x where "x = brand_loop items num"
  have mem: "(b, r) \<in> set items \<longleftrightarrow>
      (b = BRAND_VISA \<and> r = visa_re) \<or> (b = BRAND_MASTERCARD \<and> r = mastercard_re) \<or>
      (b = BRAND_AMEX \<and> r = amex_re) \<or> (b = BRAND_DISCOVER \<and> r = discover_re)" for b r
    unfolding assms BRANDS_def by auto
  have all: "(\<forall>(b, r) \<in> set items. \<not> re_match r num) \<longleftrightarrow>
      \<not> re_match visa_re num \<and> \<not> re_match mastercard_re num \<and>
      \<not> re_match amex_re num \<and> \<not> re_match discover_re num"
    unfolding assms BRANDS_def by simp
  have ex: "(\<exists>r. (x, r) \<in> set items \<and> re_match r num) \<longleftrightarrow>
      (x = BRAND_VISA \<and> re_match visa_re num) \<or>
      (x = BRAND_MASTERCARD \<and> re_match mastercard_re num) \<or>
      (x = BRAND_AMEX \<and> re_match amex_re num) \<or>
      (x = BRAND_DISCOVER \<and> re_match discover_re num)"
    unfolding mem by blast
  have c: "(x = BRAND_UNKNOWN \<and>
      \<not> re_match visa_re num \<and> \<not> re_match mastercard_re num \<and>
      \<not> re_match amex_re num \<and> \<not> re_match discover_re num) \<or>
      (x = BRAND_VISA \<and> re_match visa_re num) \<or>
      (x = BRAND_MASTERCARD \<and> re_match mastercard_re num) \<or>
      (x = BRAND_AMEX \<and> re_match amex_re num) \<or>
      (x = BRAND_DISCOVER \<and> re_match discover_re num)"
    using brand_loop_cases [of items num] unfolding x_def [symmetric] all ex .
  show ?thesis
    unfolding x_def [symmetric]
    using c patterns_exclusive [of num] brand_names_distinct by auto
qed


lemma example_matches:
  "re_match visa_re ''4111111111111111''"
  "re_match amex_re ''378282246310005''"
  "re_match discover_re ''6011111111111117''"
  "re_match mastercard_re ''5105105105105100''"
  "\<not> re_match visa_re ''0000000000000000''"
  "\<not> re_match mastercard_re ''0000000000000000''"
  "\<not> re_match amex_re ''0000000000000000''"
  "\<not> re_match discover_re ''0000000000000000''"
  by code_simp+

text \<open>
  Claim C5.  Whatever order \<open>BRANDS.iteritems()\<close> yields the four items in, \<open>brand\<close>
  is \<open>visa\<close>, \<open>mastercard\<close>, \<open>amex\<close> or \<open>discover\<close> exactly when the number
  matches that brand's pattern, and \<open>unknown\<close> exactly when it matches none; it depends
  on the number only.  The five example numbers of the specification are classified as
  it says.
\<close>

theorem brand_by_pattern:
  assumes "set (iteritems env) = set BRANDS"
  shows "(brand env self = BRAND_VISA \<longleftrightarrow> re_match visa_re (number self)) \<and>
    (brand env self = BRAND_MASTERCARD \<longleftrightarrow> re_match mastercard_re (number self)) \<and>
    (brand env self = BRAND_AMEX \<longleftrightarrow> re_match amex_re (number self)) \<and>
    (brand env self = BRAND_DISCOVER \<longleftrightarrow> re_match discover_re (number self)) \<and>
    (brand env self = BRAND_UNKNOWN \<longleftrightarrow>
       \<not> re_match visa_re (number self) \<and> \<not> re_match mastercard_re (number self) \<and>
       \<not> re_match amex_re (number self) \<and> \<not> re_match discover_re (number self)) \<and>
    (\<forall>env' other. set (iteritems env') = set BRANDS \<and> number other = number self \<longrightarrow>
       brand env' other = brand env self) \<and>
    brand env (self\<lparr>number := ''4111111111111111''\<rparr>) = BRAND_VISA \<and>
    brand env (self\<lparr>number := ''378282246310005''\<rparr>) = BRAND_AMEX \<and>
    brand env (self\<lparr>number := ''6011111111111117''\<rparr>) = BRAND_DISCOVER \<and>
    brand env (self\<lparr>number := ''5105105105105100''\<rparr>) = BRAND_MASTERCARD \<and>
    brand env (self\<lparr>number := ''0000000000000000''\<rparr>) = BRAND_UNKNOWN"
proof -
  note p = brand_loop_by_pattern [OF assms]
  have 1: "(brand env self = BRAND_VISA \<longleftrightarrow> re_match visa_re (number self)) \<and>
    (brand env self = BRAND_MASTERCARD \<longleftrightarrow> re_match mastercard_re (number self)) \<and>
    (brand env self = BRAND_AMEX \<longleftrightarrow> re_match amex_re (number self)) \<and>
    (brand env self = BRAND_DISCOVER \<longleftrightarrow> re_match discover_re (number self)) \<and>
    (brand env self = BRAND_UNKNOWN \<longleftrightarrow>
       \<not> re_match visa_re (number self) \<and> \<not> re_match mastercard_re (number self) \<and>
       \<not> re_match amex_re (number self) \<and> \<not> re_match discover_re (number self))"
    unfolding brand_def by (rule p)
  have 2: "\<forall>env' other. set (iteritems env') = set BRANDS \<and> number other = number self \<longrightarrow>
       brand env' other = brand env self"
  proof (intro allI impI)
    fix env' :: env and other :: Card
    assume a: "set (iteritems env') = set BRANDS \<and> number other = number self"
    then have s: "set (iteritems env') = set BRANDS" and n: "number other = number self"
      by simp_all
    note q = brand_loop_by_pattern [OF s, of "number self"]
    note r = p [of "number self"]
    note c = brand_loop_cases [of "iteritems env'" "number self"]
    have m: "(b, r) \<in> set (iteritems env') \<longleftrightarrow>
      (b = BRAND_VISA \<and> r = visa_re) \<or> (b = BRAND_MASTERCARD \<and> r = mastercard_re) \<or>
      (b = BRAND_AMEX \<and> r = amex_re) \<or> (b = BRAND_DISCOVER \<and> r = discover_re)" for b r
      unfolding s BRANDS_def by auto
    have "brand_loop (iteritems env') (number self) = brand_loop (iteritems env) (number self)"
      using c q r unfolding m by metis
    then show "brand env' other = brand env self" by (simp add: brand_def n)
  qed
  have 3: "brand env (self\<lparr>number := ''4111111111111111''\<rparr>) = BRAND_VISA"
    using p [of "''4111111111111111''"] example_matches by (simp add: brand_def)
  have 4: "brand env (self\<lparr>number := ''378282246310005''\<rparr>) = BRAND_AMEX"
    using p [of "''378282246310005''"] example_matches by (simp add: brand_def)
  have 5: "brand env (self\<lparr>number := ''6011111111111117''\<rparr>) = BRAND_DISCOVER"
    using p [of "''6011111111111117''"] example_matches by (simp add: brand_def)
  have 6: "brand env (self\<lparr>number := ''5105105105105100''\<rparr>) = BRAND_MASTERCARD"
    using p [of "''5105105105105100''"] example_matches by (simp add: brand_def)
  have 7: "brand env (self\<lparr>number := ''0000000000000000''\<rparr>) = BRAND_UNKNOWN"
    using p [of "''0000000000000000''"] example_matches by (simp add: brand_def)
  show ?thesis using 1 2 3 4 5 6 7 by blast
qed


theorem brand_by_pattern_witness:
  "brand clock_2026 visa_card = ''visa'' \<and>
   brand (clock_2026\<lparr>iteritems := rev BRANDS\<rparr>) amex_card = ''amex'' \<and>
   brand (clock_2026\<lparr>iteritems := rev BRANDS\<rparr>) (amex_card\<lparr>number := ''0000000000000000''\<rparr>)
     = ''unknown''"
proof -
  have a: "set (iteritems clock_2026) = set BRANDS" by (simp add: clock_2026_def)
  have b: "set (iteritems (clock_2026\<lparr>iteritems := rev BRANDS\<rparr>)) = set BRANDS" by simp
  have v: "visa_card\<lparr>number := ''4111111111111111''\<rparr> = visa_card"
    by (simp add: visa_card_def)
  have x: "amex_card\<lparr>number := ''378282246310005''\<rparr> = amex_card"
    by (simp add: amex_card_def)
  from brand_by_pattern [OF a, of visa_card] have 1: "brand clock_2026 visa_card = ''visa''"
    unfolding v BRAND_VISA_def by blast
  note t = brand_by_pattern [OF b, of amex_card]
  from t have 2: "brand (clock_2026\<lparr>iteritems := rev BRANDS\<rparr>) amex_card = ''amex''"
    unfolding x BRAND_AMEX_def by blast
  from t have 3: "brand (clock_2026\<lparr>iteritems := rev BRANDS\<rparr>)
      (amex_card\<lparr>number := ''0000000000000000''\<rparr>) = ''unknown''"
    unfolding BRAND_UNKNOWN_def by blast
  show ?thesis using 1 2 3 by simp
qed

section \<open>The patterns on numbers made of digits\<close>

text \<open>
  A constructed card's number holds digits only.  On such strings the four patterns say:
  Visa is 13 or 16 digits starting with 4; MasterCard is 16 digits starting with 51 to 55
  or with 677189; American Express is 15 digits starting with 34 or 37; Discover is 16
  digits starting with 6011 or 65.
\<close>

lemma Card_init_digits:
  "Card_init number_arg month year cvv2_arg = Inr self \<Longrightarrow> list_all is_digit (number self)"
  by (auto simp add: Card_init_def list_all_iff split: sum.splits)

lemma times_Digit_ends:
  "list_all is_digit s \<Longrightarrow>
     re_ends s (times n Digit) i = (if n = 0 \<or> i + n \<le> length s then [i + n] else [])"
  by (induction n arbitrary: i) (auto simp add: list_all_length)

lemma newline_not_digit: "\<not> is_digit (CHR 0x0A)"
  by (simp add: is_digit_def)

lemma Eol_ends_digits:
  assumes "list_all is_digit s"
  shows "re_ends s Eol i = (if i = length s then [i] else [])"
proof (cases "Suc i = length s")
  case True
  then have "is_digit (s ! i)" using assms by (simp add: list_all_length)
  then have "s ! i \<noteq> CHR 0x0A" using newline_not_digit by auto
  then show ?thesis using True by simp
next
  case False
  then show ?thesis by simp
qed

lemma visa_on_digits:
  assumes "list_all is_digit s"
  shows "re_match visa_re s \<longleftrightarrow>
     (length s = 13 \<or> length s = 16) \<and> s ! 0 = CHR ''4''"
  by (auto simp add: re_match_def visa_re_def times_Digit_ends [OF assms]
      Eol_ends_digits [OF assms] simp del: re_ends.simps(3))


lemma amex_on_digits:
  assumes "list_all is_digit s"
  shows "re_match amex_re s \<longleftrightarrow>
     length s = 15 \<and> s ! 0 = CHR ''3'' \<and> (s ! 1 = CHR ''4'' \<or> s ! 1 = CHR ''7'')"
  by (auto simp add: re_match_def amex_re_def times_Digit_ends [OF assms]
      Eol_ends_digits [OF assms] simp del: re_ends.simps(3))

lemma discover_on_digits:
  assumes "list_all is_digit s"
  shows "re_match discover_re s \<longleftrightarrow>
     length s = 16 \<and> s ! 0 = CHR ''6'' \<and>
     ((s ! 1 = CHR ''0'' \<and> s ! 2 = CHR ''1'' \<and> s ! 3 = CHR ''1'') \<or> s ! 1 = CHR ''5'')"
  using assms [unfolded list_all_length]
  by (auto simp add: re_match_def discover_re_def lits_def times_Digit_ends [OF assms]
      Eol_ends_digits [OF assms] numeral_2_eq_2 numeral_3_eq_3 simp del: re_ends.simps(3))


lemma small_numerals:
  "(4::nat) = Suc (Suc (Suc (Suc 0)))" "(5::nat) = Suc (Suc (Suc (Suc (Suc 0))))"
  by simp_all

lemma Range_1_5_on_digits:
  assumes "list_all is_digit s"
  shows "re_ends s (Range CHR ''1'' CHR ''5'') i = re_ends s (OneOf ''12345'') i"
proof (cases "i < length s")
  case False
  then show ?thesis by simp
next
  case True
  then have "is_digit (s ! i)" using assms by (simp add: list_all_length)
  then have "(49 \<le> (of_char (s ! i) :: nat) \<and> (of_char (s ! i) :: nat) \<le> 53) \<longleftrightarrow>
      s ! i \<in> set ''12345''"
    by (auto simp add: is_digit_def)
  then show ?thesis using True by simp
qed


lemma mastercard_on_digits:
  assumes "list_all is_digit s"
  shows "re_match mastercard_re s \<longleftrightarrow>
     length s = 16 \<and>
     ((s ! 0 = CHR ''5'' \<and> s ! 1 \<in> set ''12345'') \<or>
      (s ! 0 = CHR ''6'' \<and> s ! 1 = CHR ''7'' \<and> s ! 2 = CHR ''7'' \<and> s ! 3 = CHR ''1'' \<and>
       s ! 4 = CHR ''8'' \<and> s ! 5 = CHR ''9''))"
proof -
  have a: "re_ends s (seqs [Lit CHR ''5'', Range CHR ''1'' CHR ''5'', times 4 Digit,
        times 10 Digit, Eol]) 0 \<noteq> [] \<longleftrightarrow>
      length s = 16 \<and> s ! 0 = CHR ''5'' \<and> s ! 1 \<in> set ''12345''"
    by (auto simp add: times_Digit_ends [OF assms] Eol_ends_digits [OF assms]
        Range_1_5_on_digits [OF assms] simp del: re_ends.simps(3,6))
  have b: "re_ends s (seqs [Lit CHR ''6'', Lit CHR ''7'', Lit CHR ''7'', Lit CHR ''1'',
        Lit CHR ''8'', Lit CHR ''9'', times 10 Digit, Eol]) 0 \<noteq> [] \<longleftrightarrow>
      length s = 16 \<and> s ! 0 = CHR ''6'' \<and> s ! 1 = CHR ''7'' \<and> s ! 2 = CHR ''7'' \<and>
      s ! 3 = CHR ''1'' \<and> s ! 4 = CHR ''8'' \<and> s ! 5 = CHR ''9''"
    by (simp add: times_Digit_ends [OF assms] Eol_ends_digits [OF assms]
        numeral_2_eq_2 numeral_3_eq_3 small_numerals del: re_ends.simps(3)) auto
  have c: "re_match mastercard_re s \<longleftrightarrow>
      re_ends s (seqs [Lit CHR ''5'', Range CHR ''1'' CHR ''5'', times 4 Digit,
        times 10 Digit, Eol]) 0 \<noteq> [] \<or>
      re_ends s (seqs [Lit CHR ''6'', Lit CHR ''7'', Lit CHR ''7'', Lit CHR ''1'',
        Lit CHR ''8'', Lit CHR ''9'', times 10 Digit, Eol]) 0 \<noteq> []"
    unfolding re_match_def mastercard_re_def lits_def list.map seqs.simps re_ends_Bol_Seq
      re_ends_Alt_Seq re_ends_Seq_Seq
    by simp
  show ?thesis unfolding c a b by auto
qed

text \<open>On a constructed card the checksum always returns a truth value.\<close>

lemma is_mod10_valid_returns:
  assumes "Card_init number_arg month year cvv2_arg = Inr self"
  shows "\<exists>b. is_mod10_valid self = Inr b"
proof -
  have "\<forall>c \<in> set (number self). is_digit c"
    using Card_init_digits [OF assms] by (simp add: list_all_iff)
  then show ?thesis
    unfolding is_mod10_valid_def by (simp add: mod10_valid_luhn)
qed

end
